theory Spec2Isabelle
  imports Main "HOL-Library.Multiset"
begin

section \<open>Intersection iterators (foamgridintersectioniterators.hh)\<close>

text \<open>
  The iterators only read the mesh.  An element is referred to by its address (a
  natural number standing for the pointer \<^verbatim>\<open>const FoamGridEntityImp<2,dimworld>*\<close>), an edge
  by the tree it forms together with its \<^verbatim>\<open>sons_\<close>: each edge carries \<^verbatim>\<open>elements_\<close>, the
  addresses of the elements incident to it, and either no sons or two of them
  (\<^verbatim>\<open>isLeaf()\<close> tests \<^verbatim>\<open>sons_[0]==nullptr\<close>).
\<close>

datatype EdgeImp = EdgeImp (elements: "nat list") (sons: "(EdgeImp \<times> EdgeImp) option")

definition isLeaf :: "EdgeImp \<Rightarrow> bool" where
  "isLeaf edge = (sons edge = None)"

text \<open>
  What is read of an element through its pointer: \<^verbatim>\<open>level()\<close> and the array \<^verbatim>\<open>edges_\<close>.
\<close>

record Mesh =
  level :: "nat \<Rightarrow> int"
  edges :: "nat \<Rightarrow> EdgeImp list"

text \<open>
  \<^verbatim>\<open>corners()\<close> of an element is declared outside the files at hand; elements are
  triangles, and the leaf constructor itself loops over the three slots \<^verbatim>\<open>i<3\<close>.
\<close>

definition corners :: nat where
  "corners = 3"

text \<open>
  What can go wrong: the exception thrown by the leaf iterator, a failed \<^verbatim>\<open>assert\<close>, and the
  operations without defined behaviour that the model reports instead of performing them
  (reading an iterator that was never assigned, following a null pointer, indexing a
  vector beyond its size).
\<close>

datatype error =
  InvalidStateException | AssertionFailed | SingularIterator | NullPointer | OutOfRange

text \<open>
  The fields of the intersection an iterator works on.  \<^verbatim>\<open>neighbor_\<close> is an iterator into a
  vector of element addresses, kept as the position it points to; \<open>None\<close> is an iterator
  that no statement has assigned yet.  The level intersection adds \<^verbatim>\<open>neighborIndex_\<close>, the
  leaf intersection \<^verbatim>\<open>neighborEnd_\<close>.
\<close>

record Intersection =
  center :: nat
  edgeIndex :: nat
  neighbor :: "nat option"

record LevelIntersection = Intersection +
  neighborIndex :: nat

record LeafIntersection = Intersection +
  neighborEnd :: "nat option"

subsection \<open>FoamGridLevelIntersectionIterator\<close>

text \<open>
  The entries at which the inner loop stops: another element than the center, on the
  level of the center.
\<close>

definition matches :: "Mesh \<Rightarrow> nat \<Rightarrow> nat \<Rightarrow> bool" where
  "matches m c x = (x \<noteq> c \<and> level m x = level m c)"

text \<open>
  The inner \<^verbatim>\<open>while\<close> of the constructor and of \<^verbatim>\<open>increment\<close>: \<^verbatim>\<open>neighbor_\<close> and
  \<^verbatim>\<open>neighborIndex_\<close> step together past every entry that is the center or lies on another
  level.  The test \<^verbatim>\<open>neighbor_ != end()\<close> is \<open>n < length xs\<close>: an iterator is never beyond
  the end.
\<close>

function skipNeighbors :: "Mesh \<Rightarrow> nat \<Rightarrow> nat list \<Rightarrow> nat \<times> nat \<Rightarrow> nat \<times> nat" where
  "skipNeighbors m c xs (n, ni) =
     (if n < length xs \<and> (c = xs ! n \<or> level m c \<noteq> level m (xs ! n))
      then skipNeighbors m c xs (n + 1, ni + 1)
      else (n, ni))"
  by pat_completeness auto
termination
  by (relation "measure (\<lambda>(m, c, xs, n, ni). length xs - n)") auto

declare skipNeighbors.simps [simp del]

text \<open>
  The outer \<^verbatim>\<open>while\<close> of the constructor (lines 205-229) together with the test that
  follows it (lines 230-234), which only fires when the loop ran off the last edge.
  The loop test \<^verbatim>\<open>edgeIndex_ != corners()\<close> is \<open>edgeIndex < corners\<close>: the edge index
  starts at most at \<open>corners\<close> and grows by one.
\<close>

function levelSearch :: "Mesh \<Rightarrow> LevelIntersection \<Rightarrow> LevelIntersection" where
  "levelSearch m it =
     (if edgeIndex it < corners then
        (let xs = elements (edges m (center it) ! edgeIndex it);
             (n, ni) = skipNeighbors m (center it) xs (0, 0)
         in if n = length xs then
              (if length xs = 1
               then it\<lparr>neighbor := Some n, neighborIndex := length xs\<rparr>
               else levelSearch m
                      (it\<lparr>neighbor := Some n, neighborIndex := ni,
                          edgeIndex := edgeIndex it + 1\<rparr>))
            else it\<lparr>neighbor := Some n, neighborIndex := ni\<rparr>)
      else it\<lparr>neighborIndex := 0\<rparr>)"
  by pat_completeness auto
termination
  by (relation "measure (\<lambda>(m, it). corners - edgeIndex it)") auto

declare levelSearch.simps [simp del]

text \<open>
  The constructor \<^verbatim>\<open>FoamGridLevelIntersectionIterator(center, edge)\<close>.  The intersection
  starts with \<^verbatim>\<open>center_\<close> and \<^verbatim>\<open>edgeIndex_\<close> set and nothing else assigned.
\<close>

definition FoamGridLevelIntersectionIterator :: "Mesh \<Rightarrow> nat \<Rightarrow> nat \<Rightarrow> LevelIntersection" where
  "FoamGridLevelIntersectionIterator m c edge =
     (let it = \<lparr>center = c, edgeIndex = edge, neighbor = None, neighborIndex = 0\<rparr>
      in if edge = corners then it\<lparr>neighborIndex := 0\<rparr>
         else if length (elements (edges m c ! edgeIndex it)) = 1
         then it\<lparr>neighborIndex := length (elements (edges m c ! edgeIndex it))\<rparr>
         else levelSearch m it)"

text \<open>
  \<^verbatim>\<open>equals\<close>: same center, same \<^verbatim>\<open>edgeIndex_\<close>, same \<^verbatim>\<open>neighborIndex_\<close>.
\<close>

definition equals :: "LevelIntersection \<Rightarrow> LevelIntersection \<Rightarrow> bool" where
  "equals a b = (center a = center b \<and> edgeIndex a = edgeIndex b \<and> neighborIndex a = neighborIndex b)"

text \<open>
  The outer \<^verbatim>\<open>while\<close> of \<^verbatim>\<open>increment\<close> (lines 275-308) with the closing test (lines 309-314).
  Unlike the constructor it does not reset \<^verbatim>\<open>neighbor_\<close> at the head of the loop but after
  moving to the next edge.  Reading an iterator that was never assigned has no defined
  behaviour in the source; the model reports it as \<open>SingularIterator\<close>.
\<close>

function incrementSearch :: "Mesh \<Rightarrow> LevelIntersection \<Rightarrow> error + LevelIntersection" where
  "incrementSearch m it =
     (if edgeIndex it < corners then
        (case neighbor it of
           None \<Rightarrow> Inl SingularIterator
         | Some n0 \<Rightarrow>
            (let xs = elements (edges m (center it) ! edgeIndex it);
                 (n, ni) = skipNeighbors m (center it) xs (n0, neighborIndex it)
             in if n = length xs then
                  (if length xs = 1
                   then Inr (it\<lparr>neighbor := Some n, neighborIndex := length xs\<rparr>)
                   else
                     (let it' = it\<lparr>neighbor := Some n, neighborIndex := ni,
                                     edgeIndex := edgeIndex it + 1\<rparr>
                      in incrementSearch m
                           (if edgeIndex it' < corners
                            then it'\<lparr>neighbor := Some 0, neighborIndex := 0\<rparr>
                            else it')))
                else Inr (it\<lparr>neighbor := Some n, neighborIndex := ni\<rparr>)))
      else Inr (it\<lparr>neighborIndex := 0\<rparr>))"
  by pat_completeness auto
termination
  by (relation "measure (\<lambda>(m, it). corners - edgeIndex it)") auto

declare incrementSearch.simps [simp del]

text \<open>
  \<^verbatim>\<open>FoamGridLevelIntersectionIterator::increment\<close>.  On the end iterator it stores
  \<^verbatim>\<open>neighborIndex_=0\<close> and returns; nothing is thrown.
\<close>

definition levelIncrement :: "Mesh \<Rightarrow> LevelIntersection \<Rightarrow> error + LevelIntersection" where
  "levelIncrement m it =
     (if edgeIndex it = corners then Inr (it\<lparr>neighborIndex := 0\<rparr>)
      else
        incrementSearch m
          (if length (elements (edges m (center it) ! edgeIndex it)) = 1 then
             (let it' = it\<lparr>edgeIndex := edgeIndex it + 1\<rparr>
              in if edgeIndex it' < corners
                 then it'\<lparr>neighbor := Some 0, neighborIndex := 0\<rparr>
                 else it')
           else it))"

text \<open>
  A small mesh for concrete runs.  Elements \<open>0\<close> and \<open>1\<close> lie on level \<open>0\<close> and share
  an edge, which is edge \<open>0\<close> of both and lists element \<open>0\<close> first.  Edge \<open>1\<close> of element
  \<open>0\<close> is a boundary edge, and its edge \<open>2\<close> is shared with element \<open>2\<close>, which lies on
  level \<open>1\<close>.  All other edges are boundary edges.
\<close>

definition exampleMesh :: Mesh where
  "exampleMesh =
     \<lparr>level = (\<lambda>x. if x = 2 then 1 else 0),
      edges = (\<lambda>x. if x = 0 then [EdgeImp [0, 1] None, EdgeImp [0] None, EdgeImp [0, 2] None]
                   else if x = 1 then [EdgeImp [0, 1] None, EdgeImp [1] None, EdgeImp [1] None]
                   else [EdgeImp [0, 2] None, EdgeImp [2] None, EdgeImp [2] None])\<rparr>"

subsection \<open>FoamGridLeafIntersectionIterator\<close>

text \<open>
  \<^verbatim>\<open>traverseAndPushLeafEdges(edge, leafEdges)\<close>: a leaf edge appends its \<^verbatim>\<open>elements_\<close> to the
  vector, any other edge descends into \<^verbatim>\<open>sons_[0]\<close> and then into \<^verbatim>\<open>sons_[1]\<close>.
\<close>

fun traverseAndPushLeafEdges :: "EdgeImp \<Rightarrow> nat list \<Rightarrow> nat list" where
  "traverseAndPushLeafEdges (EdgeImp els None) leafEdges = leafEdges @ els"
| "traverseAndPushLeafEdges (EdgeImp els (Some (son0, son1))) leafEdges =
     traverseAndPushLeafEdges son1 (traverseAndPushLeafEdges son0 leafEdges)"

text \<open>
  The iterator.  \<^verbatim>\<open>leafEdges_\<close> is a \<^verbatim>\<open>std::map<int, ElementVector>\<close>, kept as the list of
  its entries in key order.  \<^verbatim>\<open>topLevelEdgeIter_\<close> is an iterator into the map, kept as the
  position of the entry it points to, \<^verbatim>\<open>leafEdges_.end()\<close> being the number of entries;
  \<^verbatim>\<open>leafEdgeIter_\<close> is an iterator into the vector of that entry.  \<open>None\<close> again is an
  iterator that was never assigned.
\<close>

record LeafIterator =
  intersection :: LeafIntersection
  leafEdges :: "(nat \<times> nat list) list"
  topLevelEdgeIter :: "nat option"
  leafEdgeIter :: "nat option"

text \<open>\<^verbatim>\<open>leafEdges_.find(edge)\<close>: the position of the entry with that key, or the end.\<close>

fun findKey :: "nat \<Rightarrow> (nat \<times> nat list) list \<Rightarrow> nat" where
  "findKey k [] = 0"
| "findKey k ((k', v) # rest) = (if k = k' then 0 else 1 + findKey k rest)"

text \<open>
  The statements shared by the constructor (lines 65-71) and \<^verbatim>\<open>increment\<close> (lines 117-126):
  \<^verbatim>\<open>neighbor_\<close> and \<^verbatim>\<open>neighborEnd_\<close> are set to the bounds of the vector \<open>vec\<close>, and
  \<^verbatim>\<open>neighbor_\<close> steps over the first entry if that is the center.
\<close>

definition firstNeighbor :: "nat list \<Rightarrow> LeafIterator \<Rightarrow> LeafIterator" where
  "firstNeighbor vec it =
     (let i = (intersection it)\<lparr>neighbor := Some 0, neighborEnd := Some (length vec)\<rparr>
      in if 0 \<noteq> length vec \<and> vec ! 0 = center i
         then it\<lparr>intersection := i\<lparr>neighbor := Some 1\<rparr>\<rparr>
         else it\<lparr>intersection := i\<rparr>)"

text \<open>
  The constructor \<^verbatim>\<open>FoamGridLeafIntersectionIterator(center, edge)\<close>.  The map is empty
  when the loop over the three edges starts, so \<^verbatim>\<open>leafEdges_[i]\<close> makes a new empty vector
  for each of them; \<open>edge\<close> is one of the three slots or \<open>corners\<close>.  On a boundary edge the constructor returns before
  \<^verbatim>\<open>topLevelEdgeIter_\<close> and \<^verbatim>\<open>leafEdgeIter_\<close> are assigned.
\<close>

definition FoamGridLeafIntersectionIterator :: "Mesh \<Rightarrow> nat \<Rightarrow> nat \<Rightarrow> LeafIterator" where
  "FoamGridLeafIntersectionIterator m c edge =
     (let it = \<lparr>intersection = \<lparr>center = c, edgeIndex = edge, neighbor = None, neighborEnd = None\<rparr>,
                leafEdges = [], topLevelEdgeIter = None, leafEdgeIter = None\<rparr>
      in if edge = corners then it
         else
           (let le = map (\<lambda>i. (i, traverseAndPushLeafEdges (edges m c ! i) [])) [0..<3];
                vec = snd (le ! findKey edge le);
                it1 = it\<lparr>leafEdges := le,
                         intersection := (intersection it)\<lparr>edgeIndex := edge, neighbor := Some 0,
                                           neighborEnd := Some (length vec)\<rparr>\<rparr>
            in if length (elements (edges m c ! edge)) = 1 then it1
               else firstNeighbor vec
                      (it1\<lparr>topLevelEdgeIter := Some (findKey edge le), leafEdgeIter := Some 0\<rparr>)))"

text \<open>The constructor of the one-after-last iterator, \<^verbatim>\<open>FoamGridLeafIntersectionIterator(center)\<close>.\<close>

definition FoamGridLeafIntersectionIteratorEnd :: "nat \<Rightarrow> LeafIterator" where
  "FoamGridLeafIntersectionIteratorEnd c =
     \<lparr>intersection = \<lparr>center = c, edgeIndex = corners, neighbor = None, neighborEnd = None\<rparr>,
      leafEdges = [], topLevelEdgeIter = Some 0, leafEdgeIter = None\<rparr>"

text \<open>
  \<^verbatim>\<open>FoamGridLeafIntersectionIterator::increment\<close>.  At \<^verbatim>\<open>leafEdges_.end()\<close> it throws
  \<^verbatim>\<open>InvalidStateException\<close> (a position is never beyond the end, so the test is
  \<open>\<not> t < length (leafEdges it)\<close>).  Otherwise \<^verbatim>\<open>neighbor_\<close> moves on by one; when it reaches the
  end of the current vector, \<^verbatim>\<open>leafEdgeIter_\<close> moves on by one, and only when that reaches
  the end of the same vector does \<^verbatim>\<open>topLevelEdgeIter_\<close> move to the next entry of the map.
\<close>

definition leafIncrement :: "LeafIterator \<Rightarrow> error + LeafIterator" where
  "leafIncrement it =
     (case topLevelEdgeIter it of
        None \<Rightarrow> Inl SingularIterator
      | Some t \<Rightarrow>
         if \<not> t < length (leafEdges it) then Inl InvalidStateException
         else
           (case neighbor (intersection it) of
              None \<Rightarrow> Inl SingularIterator
            | Some n \<Rightarrow>
               (let vec = snd (leafEdges it ! t);
                    it1 = it\<lparr>intersection := (intersection it)\<lparr>neighbor := Some (n + 1)\<rparr>\<rparr>
                in if n + 1 = length vec then
                     (case leafEdgeIter it1 of
                        None \<Rightarrow> Inl SingularIterator
                      | Some j \<Rightarrow>
                         (let it2 = it1\<lparr>leafEdgeIter := Some (j + 1)\<rparr>
                          in if j + 1 = length vec then
                               (let it3 = it2\<lparr>topLevelEdgeIter := Some (t + 1)\<rparr>
                                in if t + 1 = length (leafEdges it3) then Inr it3
                                   else Inr (firstNeighbor (snd (leafEdges it3 ! (t + 1)))
                                               (it3\<lparr>leafEdgeIter := Some 0\<rparr>)))
                             else Inr (firstNeighbor vec it2)))
                   else Inr it1)))"

text \<open>
  \<^verbatim>\<open>*neighbor_\<close>, the element the iterator currently presents as the neighbor across the
  edge; there is none when \<^verbatim>\<open>neighbor_\<close> is not before \<^verbatim>\<open>neighborEnd_\<close>.
\<close>

definition currentNeighbor :: "LeafIterator \<Rightarrow> nat option" where
  "currentNeighbor it =
     (case (topLevelEdgeIter it, neighbor (intersection it)) of
        (Some t, Some n) \<Rightarrow>
          if t < length (leafEdges it) \<and> n < length (snd (leafEdges it ! t))
          then Some (snd (leafEdges it ! t) ! n) else None
      | _ \<Rightarrow> None)"

text \<open>
  The neighbors the iterator presents while \<^verbatim>\<open>topLevelEdgeIter_\<close> stays at the entry of edge
  \<open>e\<close>, collected over at most \<open>fuel\<close> calls of \<^verbatim>\<open>increment\<close>.
\<close>

fun neighborsAt :: "nat \<Rightarrow> nat \<Rightarrow> LeafIterator \<Rightarrow> nat list" where
  "neighborsAt 0 e it = []"
| "neighborsAt (Suc fuel) e it =
     (if topLevelEdgeIter it = Some (findKey e (leafEdges it)) \<and> findKey e (leafEdges it) < length (leafEdges it)
      then (case currentNeighbor it of None \<Rightarrow> [] | Some x \<Rightarrow> [x])
           @ (case leafIncrement it of Inl err \<Rightarrow> [] | Inr it' \<Rightarrow> neighborsAt fuel e it')
      else [])"


section \<open>The hierarchic iterator (foamgridhierarchiciterator.hh)\<close>

text \<open>
  The iterator only follows \<^verbatim>\<open>sons_\<close> and reads \<^verbatim>\<open>level_\<close>, so an element is kept as
  the tree it forms with its descendants.  An element without sons is a leaf, and
  \<^verbatim>\<open>nSons()\<close> is the number of its sons.
\<close>

datatype ElementImp = ElementImp (elementLevel: int) (elementSons: "ElementImp list")

definition elementIsLeaf :: "ElementImp \<Rightarrow> bool" where
  "elementIsLeaf e = (elementSons e = [])"

definition nSons :: "ElementImp \<Rightarrow> nat" where
  "nSons e = length (elementSons e)"

text \<open>
  The iterator: the bound \<^verbatim>\<open>maxlevel_\<close>, the stack \<^verbatim>\<open>elemStack\<close> with its top at the head of
  the list, and the element the entity pointer is set to (\<^verbatim>\<open>setToTarget\<close>), \<open>None\<close> for
  \<^verbatim>\<open>nullptr\<close>.
\<close>

record HierarchicIterator =
  maxlevel :: int
  elemStack :: "ElementImp list"
  target :: "ElementImp option"

text \<open>
  \<^verbatim>\<open>FoamGridHierarchicIterator::increment\<close>: pop the top; if it lies above \<^verbatim>\<open>maxlevel_\<close> and
  is not a leaf, push its sons \<open>0\<close>, \<open>1\<close>, \<dots> in this order; point to the new top.
\<close>

definition hierarchicIncrement :: "HierarchicIterator \<Rightarrow> HierarchicIterator" where
  "hierarchicIncrement it =
     (case elemStack it of
        [] \<Rightarrow> it
      | old_target # rest \<Rightarrow>
          (let stack =
                 (if elementLevel old_target < maxlevel it \<and> \<not> elementIsLeaf old_target
                  then fold (\<lambda>i st. elementSons old_target ! i # st) [0..<nSons old_target] rest
                  else rest)
           in it\<lparr>elemStack := stack,
                 target := (case stack of [] \<Rightarrow> None | tp # _ \<Rightarrow> Some tp)\<rparr>))"

text \<open>
  The elements the iterator points to, one after the other, until it points to
  \<^verbatim>\<open>nullptr\<close>: the loop \<^verbatim>\<open>for (; it != end; ++it)\<close> of a caller.
\<close>

function visits :: "HierarchicIterator \<Rightarrow> ElementImp list" where
  "visits it =
     (case elemStack it of
        [] \<Rightarrow> []
      | tp # _ \<Rightarrow> tp # visits (hierarchicIncrement it))"
  by pat_completeness auto
termination
proof (relation "measure (\<lambda>it. size_list size (elemStack it))")
  show "wf (measure (\<lambda>it. size_list size (elemStack it)))" by simp
next
  fix it :: HierarchicIterator and tp rest
  assume st: "elemStack it = tp # rest"
  have rv: "size_list size (rev ss) = size_list size ss" for ss :: "ElementImp list"
    by (induction ss) simp_all
  have ps: "fold (\<lambda>i st. ss ! i # st) [0..<length ss] rest = rev ss @ rest"
    for ss rest :: "ElementImp list"
  proof -
    have "fold (\<lambda>i st. ss ! i # st) [0..<length ss] rest
          = fold (\<lambda>s st. s # st) (map (\<lambda>i. ss ! i) [0..<length ss]) rest"
      by (simp add: fold_map comp_def)
    then show ?thesis by (simp add: map_nth fold_Cons_rev)
  qed
  have "size_list size (elementSons tp) < size tp"
    by (cases tp) simp
  then have "size_list size (elemStack (hierarchicIncrement it)) < size_list size (elemStack it)"
    using st by (simp add: hierarchicIncrement_def Let_def nSons_def ps rv)
  then show "(hierarchicIncrement it, it) \<in> measure (\<lambda>it. size_list size (elemStack it))"
    by simp
qed

declare visits.simps [simp del]

text \<open>
  The functions that hand out the iterator for an element (\<^verbatim>\<open>hbegin\<close>) are not among the
  sources.  The traversal below an element \<open>E\<close> is started here from the stack that holds
  \<open>E\<close> alone, by one call of \<^verbatim>\<open>increment\<close>, which replaces \<open>E\<close> by its sons.
\<close>

definition hierarchicStart :: "int \<Rightarrow> ElementImp \<Rightarrow> HierarchicIterator" where
  "hierarchicStart L E = hierarchicIncrement \<lparr>maxlevel = L, elemStack = [E], target = Some E\<rparr>"

text \<open>
  For comparison, in the words of the specification: all strict descendants of an
  element, the depth-first pre-order listing bounded by a level (sons taken from the last
  to the first, as the stack hands them out), and the hierarchy in which every son lies
  one level below its father.
\<close>

fun descendants :: "ElementImp \<Rightarrow> ElementImp list" where
  "descendants (ElementImp l ss) = concat (map (\<lambda>s. s # descendants s) ss)"

fun visitOrder :: "int \<Rightarrow> ElementImp \<Rightarrow> ElementImp list" where
  "visitOrder L (ElementImp l ss) =
     (if l < L then concat (map (\<lambda>s. s # visitOrder L s) (rev ss)) else [])"

fun wellLevelled :: "ElementImp \<Rightarrow> bool" where
  "wellLevelled (ElementImp l ss) = (\<forall>s \<in> set ss. elementLevel s = l + 1 \<and> wellLevelled s)"

text \<open>
  An element of level \<open>0\<close> with two sons, the first of which is refined once more.
\<close>

definition exampleElement :: ElementImp where
  "exampleElement =
     ElementImp 0 [ElementImp 1 [ElementImp 2 [], ElementImp 2 []], ElementImp 1 []]"


section \<open>Index sets (foamgridindexsets.hh)\<close>

text \<open>The grid dimension \<^verbatim>\<open>dim\<close>: the grid consists of triangles.\<close>

definition dim :: nat where
  "dim = 2"

text \<open>
  \<^verbatim>\<open>GeometryType\<close> belongs to the grid interface: a basic type and a dimension, the latter
  an \<^verbatim>\<open>unsigned int\<close>.
\<close>

datatype BasicType = simplex | cube | pyramid | prism | none

record GeometryType =
  basicType :: BasicType
  typeDim :: nat

text \<open>
  \<^verbatim>\<open>FoamGridLeafIndexSet\<close>: \<^verbatim>\<open>size_\<close>, the number of entities per dimension (an array of
  \<^verbatim>\<open>dim+1\<close> \<^verbatim>\<open>int\<close>), and \<^verbatim>\<open>myTypes_\<close>, the geometry types per codimension.
\<close>

record LeafIndexSet =
  sizes :: "int list"
  leafTypes :: "GeometryType list list"

text \<open>\<^verbatim>\<open>size(int codim)\<close> and \<^verbatim>\<open>size(GeometryType type)\<close> of the leaf index set.\<close>

definition leafSize :: "LeafIndexSet \<Rightarrow> int \<Rightarrow> int" where
  "leafSize s codim =
     (if codim < 0 \<or> codim > int dim then 0 else sizes s ! nat (int dim - codim))"

definition leafSizeOfType :: "LeafIndexSet \<Rightarrow> GeometryType \<Rightarrow> int" where
  "leafSizeOfType s t =
     (if int (typeDim t) < 0 \<or> typeDim t > dim then 0 else sizes s ! typeDim t)"

section \<open>The grid and its entities\<close>

text \<open>
  The grid owns its entities in one list per kind and level (\<^verbatim>\<open>entityImps_\<close>); everything
  else refers to them by pointer.  An entity is therefore kept at an address, the lists
  hold addresses in the order of insertion, and \<^verbatim>\<open>vertexAt\<close>, \<^verbatim>\<open>edgeAt\<close> and \<^verbatim>\<open>elementAt\<close>
  give the object stored at an address.  A pointer that may be null is an option.
  Positions in space are left out: no operation below reads them.

  \<^verbatim>\<open>FoamGridEntityBase\<close> carries \<^verbatim>\<open>level_\<close>, \<^verbatim>\<open>id_\<close>, \<^verbatim>\<open>levelIndex_\<close> and \<^verbatim>\<open>leafIndex_\<close>; the two
  indices are not set when an entity is created, which is \<open>None\<close>.  The same holds for
  \<^verbatim>\<open>boundaryId_\<close> of an edge and for the entries of \<^verbatim>\<open>edges_\<close> of an element.
\<close>

record FoamGridEntityBase =
  entityLevel :: int
  entityId :: nat
  levelIndex :: "nat option"
  leafIndex :: "nat option"

record FoamGridVertex = FoamGridEntityBase +
  son :: "nat option"

record FoamGridEdge = FoamGridEntityBase +
  edgeVertex :: "nat \<times> nat"
  edgeElements :: "nat list"
  edgeSons :: "nat option \<times> nat option"
  boundaryId :: "nat option"

record FoamGridElement = FoamGridEntityBase +
  elementVertex :: "nat list"
  elementEdges :: "nat option list"
  elementSonList :: "nat list"

text \<open>The lists of one level: \<^verbatim>\<open>Dune::get<0>\<close>, \<^verbatim>\<open>Dune::get<1>\<close> and \<^verbatim>\<open>Dune::get<2>\<close>.\<close>

record EntityLists =
  vertexList :: "nat list"
  edgeList :: "nat list"
  elementList :: "nat list"

text \<open>
  \<^verbatim>\<open>FoamGridLevelIndexSet\<close>: \<^verbatim>\<open>level_\<close>, \<^verbatim>\<open>numElements_\<close>, \<^verbatim>\<open>numVertices_\<close> and \<^verbatim>\<open>myTypes_\<close>
  (\<^verbatim>\<open>numEdges_\<close> is never written or read).
\<close>

record LevelIndexSet =
  indexLevel :: nat
  numElements :: int
  numVertices :: int
  levelTypes :: "GeometryType list list"

record FoamGrid =
  entityImps :: "EntityLists list"
  vertexAt :: "nat \<Rightarrow> FoamGridVertex"
  edgeAt :: "nat \<Rightarrow> FoamGridEdge"
  elementAt :: "nat \<Rightarrow> FoamGridElement"
  freeIdCounter :: "nat list"
  levelIndexSets :: "LevelIndexSet list"
  leafIndexSet :: LeafIndexSet

text \<open>\<^verbatim>\<open>isLeaf()\<close> of an edge: \<^verbatim>\<open>sons_[0]==nullptr\<close>.\<close>

definition edgeIsLeaf :: "FoamGridEdge \<Rightarrow> bool" where
  "edgeIsLeaf e = (fst (edgeSons e) = None)"

text \<open>
  Modelled from the spec: \<^verbatim>\<open>isLeaf()\<close> of a vertex and of an element are declared in
  \<^verbatim>\<open>foamgridvertex.hh\<close> and \<^verbatim>\<open>foamgridelements.hh\<close>, which are not among the sources;
  a leaf is an entity without children, and the one successor of a vertex is \<^verbatim>\<open>son_\<close>.
\<close>

definition vertexIsLeaf :: "FoamGridVertex \<Rightarrow> bool" where
  "vertexIsLeaf v = (son v = None)"

definition elementIsLeaf' :: "FoamGridElement \<Rightarrow> bool" where
  "elementIsLeaf' e = (elementSonList e = [])"

subsection \<open>FoamGridLevelIndexSet::update and FoamGridLeafIndexSet::update\<close>

text \<open>
  The loop \<^verbatim>\<open>for (...) it->index = counter++\<close> over a list of addresses: \<open>put\<close> stores the
  index in the entity.
\<close>

definition assignIndices ::
  "(nat \<Rightarrow> 'a \<Rightarrow> 'a) \<Rightarrow> nat list \<Rightarrow> (nat \<Rightarrow> 'a) \<times> int \<Rightarrow> (nat \<Rightarrow> 'a) \<times> int" where
  "assignIndices put as st = fold (\<lambda>a (h, n). (h(a := put (nat n) (h a)), n + 1)) as st"

definition putLevelIndex :: "nat \<Rightarrow> 'a FoamGridEntityBase_scheme \<Rightarrow> 'a FoamGridEntityBase_scheme" where
  "putLevelIndex i x = x\<lparr>levelIndex := Some i\<rparr>"

definition putLeafIndex :: "nat \<Rightarrow> 'a FoamGridEntityBase_scheme \<Rightarrow> 'a FoamGridEntityBase_scheme" where
  "putLeafIndex i x = x\<lparr>leafIndex := Some i\<rparr>"

text \<open>The list of geometry types of a codimension: one type if there are entities, none otherwise.\<close>

definition typesPresent :: "int \<Rightarrow> GeometryType \<Rightarrow> GeometryType list" where
  "typesPresent n t = (if n > 0 then [t] else [])"

text \<open>
  \<^verbatim>\<open>FoamGridLevelIndexSet::update(grid, level)\<close>: number the elements and the vertices of
  the level, then record the geometry types.  \<^verbatim>\<open>entityImps_[level_]\<close> beyond the last
  level has no defined behaviour.
\<close>

definition levelUpdate ::
  "FoamGrid \<Rightarrow> nat \<Rightarrow> LevelIndexSet \<Rightarrow> error + (FoamGrid \<times> LevelIndexSet)" where
  "levelUpdate g lv s =
     (if \<not> lv < length (entityImps g) then Inl OutOfRange
      else
        (let (eh, ne) = assignIndices putLevelIndex (elementList (entityImps g ! lv)) (elementAt g, 0);
             (vh, nv) = assignIndices putLevelIndex (vertexList (entityImps g ! lv)) (vertexAt g, 0)
         in Inr (g\<lparr>elementAt := eh, vertexAt := vh\<rparr>,
                 s\<lparr>indexLevel := lv, numElements := ne, numVertices := nv,
                   levelTypes := (levelTypes s)
                     [0 := typesPresent ne \<lparr>basicType = simplex, typeDim = 1\<rparr>,
                      1 := typesPresent nv \<lparr>basicType = simplex, typeDim = 0\<rparr>]\<rparr>)))"

text \<open>
  Modelled from the spec: the leaf iterator over elements and \<^verbatim>\<open>maxLevel()\<close> belong to
  files that are not among the sources.  The leaf elements are iterated in traversal
  order, level by level and within a level in the order of the list; the deepest level
  present is the last entry of \<^verbatim>\<open>entityImps_\<close>.
\<close>

definition leafElements :: "FoamGrid \<Rightarrow> nat list" where
  "leafElements g =
     concat (map (\<lambda>l. filter (\<lambda>a. elementIsLeaf' (elementAt g a)) (elementList l)) (entityImps g))"

definition maxLevel :: "FoamGrid \<Rightarrow> int" where
  "maxLevel g = int (length (entityImps g)) - 1"

text \<open>The levels \<^verbatim>\<open>maxLevel()\<close>, \<dots>, \<open>0\<close> in the order of \<^verbatim>\<open>for (int i=grid_->maxLevel(); i>=0; i--)\<close>.\<close>

definition levelsDownward :: "FoamGrid \<Rightarrow> nat list" where
  "levelsDownward g = rev [0..<nat (maxLevel g + 1)]"

text \<open>
  The body of the loop over the edges of a level (lines 224-235): the assertion that the
  edge is a leaf, then the assignment of the next index.
\<close>

fun setEdgeLeafIndex ::
  "nat \<Rightarrow> error + ((nat \<Rightarrow> FoamGridEdge) \<times> int) \<Rightarrow> error + ((nat \<Rightarrow> FoamGridEdge) \<times> int)" where
  "setEdgeLeafIndex a (Inl err) = Inl err"
| "setEdgeLeafIndex a (Inr (h, n)) =
     (if \<not> edgeIsLeaf (h a) then Inl AssertionFailed
      else Inr (h(a := putLeafIndex (nat n) (h a)), n + 1))"

text \<open>
  The body of the loop over the vertices of a level (lines 250-259): a leaf vertex gets
  the next index, any other vertex the index its son holds at that moment.
\<close>

fun setVertexLeafIndex ::
  "nat \<Rightarrow> (nat \<Rightarrow> FoamGridVertex) \<times> int \<Rightarrow> (nat \<Rightarrow> FoamGridVertex) \<times> int" where
  "setVertexLeafIndex a (h, n) =
     (case son (h a) of
        None \<Rightarrow> (h(a := putLeafIndex (nat n) (h a)), n + 1)
      | Some s \<Rightarrow> (h(a := (h a)\<lparr>leafIndex := leafIndex (h s)\<rparr>), n))"

text \<open>
  \<^verbatim>\<open>FoamGridLeafIndexSet::update\<close>: elements first, then edges and vertices from the deepest
  level down to level \<open>0\<close>, then the geometry types per codimension.
\<close>

definition leafUpdate :: "FoamGrid \<Rightarrow> LeafIndexSet \<Rightarrow> error + (FoamGrid \<times> LeafIndexSet)" where
  "leafUpdate g s =
     (let (eh, n2) = assignIndices putLeafIndex (leafElements g) (elementAt g, 0)
      in case fold (\<lambda>i st. fold setEdgeLeafIndex (edgeList (entityImps g ! i)) st)
                (levelsDownward g) (Inr (edgeAt g, 0)) of
           Inl err \<Rightarrow> Inl err
         | Inr (dh, n1) \<Rightarrow>
             (let (vh, n0) = fold (\<lambda>i st. fold setVertexLeafIndex (vertexList (entityImps g ! i)) st)
                               (levelsDownward g) (vertexAt g, 0);
                  size = [n0, n1, n2]
              in Inr (g\<lparr>elementAt := eh, edgeAt := dh, vertexAt := vh\<rparr>,
                      s\<lparr>sizes := size,
                        leafTypes := map (\<lambda>i. typesPresent (size ! (dim - i))
                                                \<lparr>basicType = simplex, typeDim = dim - i\<rparr>)
                                       [0..<dim + 1]\<rparr>)))"


section \<open>The grid factory (foamgridfactory.hh)\<close>

text \<open>\<^verbatim>\<open>type.isTriangle()\<close> of the grid interface.\<close>

definition isTriangle :: "GeometryType \<Rightarrow> bool" where
  "isTriangle t = (basicType t = simplex \<and> typeDim t = 2)"

text \<open>
  The factory: \<^verbatim>\<open>grid_\<close> (\<open>None\<close> is \<^verbatim>\<open>NULL\<close>), \<^verbatim>\<open>factoryOwnsGrid_\<close>, \<^verbatim>\<open>vertexIndex_\<close> and
  \<^verbatim>\<open>vertexArray_\<close>, the addresses of the inserted vertices in the order of insertion.
\<close>

record GridFactory =
  grid :: "FoamGrid option"
  factoryOwnsGrid :: bool
  vertexIndex :: nat
  vertexArray :: "nat list"

text \<open>
  The grid that \<^verbatim>\<open>new FoamGrid\<close> yields: no level, no entity, all id counters at zero.  The
  objects at the addresses not yet in use are of no concern; they are given fixed values
  so that runs can be evaluated.
\<close>

definition newFoamGrid :: FoamGrid where
  "newFoamGrid =
     \<lparr>entityImps = [],
      vertexAt = (\<lambda>a. \<lparr>entityLevel = 0, entityId = 0, levelIndex = None, leafIndex = None,
                        son = None\<rparr>),
      edgeAt = (\<lambda>a. \<lparr>entityLevel = 0, entityId = 0, levelIndex = None, leafIndex = None,
                      edgeVertex = (0, 0), edgeElements = [], edgeSons = (None, None),
                      boundaryId = None\<rparr>),
      elementAt = (\<lambda>a. \<lparr>entityLevel = 0, entityId = 0, levelIndex = None, leafIndex = None,
                         elementVertex = [], elementEdges = [], elementSonList = []\<rparr>),
      freeIdCounter = [0, 0, 0],
      levelIndexSets = [],
      leafIndexSet = \<lparr>sizes = [0, 0, 0], leafTypes = [[], [], []]\<rparr>\<rparr>"

text \<open>The default constructor: a new grid with \<^verbatim>\<open>entityImps_.resize(1)\<close>.\<close>

definition newGridFactory :: GridFactory where
  "newGridFactory =
     \<lparr>grid = Some (newFoamGrid\<lparr>entityImps := [\<lparr>vertexList = [], edgeList = [], elementList = []\<rparr>]\<rparr>),
      factoryOwnsGrid = True, vertexIndex = 0, vertexArray = []\<rparr>"

text \<open>A change of the lists of level \<open>0\<close>, \<^verbatim>\<open>grid_->entityImps_[0]\<close>.\<close>

definition onCoarseLevel :: "(EntityLists \<Rightarrow> EntityLists) \<Rightarrow> FoamGrid \<Rightarrow> FoamGrid" where
  "onCoarseLevel f g = g\<lparr>entityImps := (entityImps g)[0 := f (entityImps g ! 0)]\<rparr>"

text \<open>
  \<^verbatim>\<open>insertVertex\<close>.  The new vertex takes the next id of codimension-counter \<open>0\<close>; the
  entities of a kind are created one after the other, so this id also serves as the
  address of the new list node.
\<close>

definition insertVertex :: "GridFactory \<Rightarrow> error + GridFactory" where
  "insertVertex f =
     (case grid f of
        None \<Rightarrow> Inl NullPointer
      | Some g \<Rightarrow>
          (let a = freeIdCounter g ! 0;
               v = \<lparr>entityLevel = 0, entityId = a, levelIndex = None, leafIndex = None,
                    son = None\<rparr>;
               g' = onCoarseLevel (\<lambda>l. l\<lparr>vertexList := vertexList l @ [a]\<rparr>)
                      (g\<lparr>vertexAt := (vertexAt g)(a := v),
                         freeIdCounter := (freeIdCounter g)[0 := a + 1]\<rparr>)
           in Inr (f\<lparr>grid := Some g', vertexArray := vertexArray f @ [a]\<rparr>)))"

text \<open>
  \<^verbatim>\<open>insertElement\<close>: the assertion on the type, then the new element with its three
  corners looked up in \<^verbatim>\<open>vertexArray_\<close>.  A vertex number that was never inserted indexes
  the vector beyond its size.  The class of the elements is not among the sources; its
  array \<^verbatim>\<open>edges_\<close> is taken to have one entry for each of the three edges of a triangle,
  as the intersection iterators read it (\<^verbatim>\<open>center->edges_[i]\<close> for \<open>i < 3\<close>).
\<close>

definition insertElement :: "GeometryType \<Rightarrow> nat list \<Rightarrow> GridFactory \<Rightarrow> error + GridFactory" where
  "insertElement type vertices f =
     (if \<not> isTriangle type then Inl AssertionFailed
      else case grid f of
        None \<Rightarrow> Inl NullPointer
      | Some g \<Rightarrow>
          if \<not> (3 \<le> length vertices \<and> vertices ! 0 < length (vertexArray f)
                  \<and> vertices ! 1 < length (vertexArray f) \<and> vertices ! 2 < length (vertexArray f))
          then Inl OutOfRange
          else
            (let a = freeIdCounter g ! dim;
                 newElement = \<lparr>entityLevel = 0, entityId = a, levelIndex = None, leafIndex = None,
                                elementVertex = [vertexArray f ! (vertices ! 0),
                                                 vertexArray f ! (vertices ! 1),
                                                 vertexArray f ! (vertices ! 2)],
                                elementEdges = [None, None, None], elementSonList = []\<rparr>;
                 g' = onCoarseLevel (\<lambda>l. l\<lparr>elementList := elementList l @ [a]\<rparr>)
                        (g\<lparr>elementAt := (elementAt g)(a := newElement),
                           freeIdCounter := (freeIdCounter g)[dim := a + 1]\<rparr>)
             in Inr (f\<lparr>grid := Some g'\<rparr>)))"

text \<open>
  \<^verbatim>\<open>refElement.subEntity(i, 1, k, 2)\<close> for the reference triangle of the grid interface:
  corner \<open>k\<close> of edge \<open>i\<close>.  The edges of the reference triangle join the corners
  \<open>0-1\<close>, \<open>0-2\<close> and \<open>1-2\<close>.
\<close>

definition subEntity :: "nat \<Rightarrow> nat \<Rightarrow> nat" where
  "subEntity i k = [[0, 1], [0, 2], [1, 2]] ! i ! k"

text \<open>
  The body of the loop over the edges of an element (lines 127-162): look the edge up in
  \<^verbatim>\<open>edgeMap\<close> under both orders of its end points, create it if it is not there, and make
  element and edge know each other.
\<close>

definition insertEdge ::
  "nat \<Rightarrow> nat \<Rightarrow> ((nat \<times> nat) \<rightharpoonup> nat) \<times> FoamGrid \<Rightarrow> ((nat \<times> nat) \<rightharpoonup> nat) \<times> FoamGrid" where
  "insertEdge element i st =
     (let (edgeMap, g) = st;
          v0 = elementVertex (elementAt g element) ! subEntity i 0;
          v1 = elementVertex (elementAt g element) ! subEntity i 1;
          e = (case edgeMap (v0, v1) of Some x \<Rightarrow> Some x | None \<Rightarrow> edgeMap (v1, v0));
          (existingEdge, edgeMap', g') =
            (case e of
               Some x \<Rightarrow> (x, edgeMap, g)
             | None \<Rightarrow>
                 (let a = freeIdCounter g ! 1;
                      newEdge = \<lparr>entityLevel = 0, entityId = a, levelIndex = None, leafIndex = None,
                                 edgeVertex = (v0, v1), edgeElements = [],
                                 edgeSons = (None, None), boundaryId = None\<rparr>
                  in (a, edgeMap((v0, v1) \<mapsto> a),
                      onCoarseLevel (\<lambda>l. l\<lparr>edgeList := edgeList l @ [a]\<rparr>)
                        (g\<lparr>edgeAt := (edgeAt g)(a := newEdge),
                           freeIdCounter := (freeIdCounter g)[1 := a + 1]\<rparr>))))
      in (edgeMap',
          g'\<lparr>elementAt := (elementAt g')(element :=
                  (elementAt g' element)\<lparr>elementEdges :=
                     (elementEdges (elementAt g' element))[i := Some existingEdge]\<rparr>),
              edgeAt := (edgeAt g')(existingEdge :=
                  (edgeAt g' existingEdge)\<lparr>edgeElements :=
                     edgeElements (edgeAt g' existingEdge) @ [element]\<rparr>)\<rparr>))"

text \<open>The loop over the elements of level \<open>0\<close> (lines 114-166), starting from the empty map.\<close>

definition createEdges :: "FoamGrid \<Rightarrow> ((nat \<times> nat) \<rightharpoonup> nat) \<times> FoamGrid" where
  "createEdges g =
     fold (\<lambda>element st.
             fold (insertEdge element) [0..<length (elementEdges (elementAt (snd st) element))] st)
       (elementList (entityImps g ! 0)) (Map.empty, g)"

text \<open>
  Modelled from the spec: \<^verbatim>\<open>FoamGrid::setIndices\<close> is declared in \<^verbatim>\<open>foamgrid.hh\<close>, which is
  not among the sources.  It runs the index pass: the level index set of every level is
  updated, a new one being made for a level that has none, and then the leaf index set.
\<close>

definition emptyLevelIndexSet :: LevelIndexSet where
  "emptyLevelIndexSet =
     \<lparr>indexLevel = 0, numElements = 0, numVertices = 0, levelTypes = [[], [], []]\<rparr>"

fun updateLevelIndexSets :: "nat list \<Rightarrow> FoamGrid \<Rightarrow> error + FoamGrid" where
  "updateLevelIndexSets [] g = Inr g"
| "updateLevelIndexSets (i # is) g =
     (case levelUpdate g i (levelIndexSets g ! i) of
        Inl err \<Rightarrow> Inl err
      | Inr (g', s) \<Rightarrow> updateLevelIndexSets is (g'\<lparr>levelIndexSets := (levelIndexSets g')[i := s]\<rparr>))"

definition setIndices :: "FoamGrid \<Rightarrow> error + FoamGrid" where
  "setIndices g =
     (let g0 = g\<lparr>levelIndexSets := levelIndexSets g
                  @ replicate (length (entityImps g) - length (levelIndexSets g)) emptyLevelIndexSet\<rparr>
      in case updateLevelIndexSets [0..<length (entityImps g0)] g0 of
           Inl err \<Rightarrow> Inl err
         | Inr g1 \<Rightarrow>
             (case leafUpdate g1 (leafIndexSet g1) of
                Inl err \<Rightarrow> Inl err
              | Inr (g2, s) \<Rightarrow> Inr (g2\<lparr>leafIndexSet := s\<rparr>)))"

text \<open>The loop that sets the boundary ids (lines 177-182): every edge of level \<open>0\<close> in turn.\<close>

definition setBoundaryIds :: "FoamGrid \<Rightarrow> FoamGrid" where
  "setBoundaryIds g =
     fst (fold (\<lambda>a (g, boundaryIdCounter).
                  (g\<lparr>edgeAt := (edgeAt g)(a := (edgeAt g a)\<lparr>boundaryId := Some boundaryIdCounter\<rparr>)\<rparr>,
                   boundaryIdCounter + 1))
            (edgeList (entityImps g ! 0)) (g, 0))"

text \<open>
  \<^verbatim>\<open>createGrid\<close>: nothing happens without a grid; otherwise the edges are created, the
  indices and the boundary ids are set, and the grid is handed over, \<^verbatim>\<open>grid_\<close> becoming
  \<^verbatim>\<open>NULL\<close>.  The result is the returned pointer together with the factory afterwards.
\<close>

definition createGrid :: "GridFactory \<Rightarrow> error + (FoamGrid option \<times> GridFactory)" where
  "createGrid f =
     (case grid f of
        None \<Rightarrow> Inr (None, f)
      | Some g \<Rightarrow>
          (case setIndices (snd (createEdges g)) of
             Inl err \<Rightarrow> Inl err
           | Inr g' \<Rightarrow> Inr (Some (setBoundaryIds g'), f\<lparr>grid := None\<rparr>)))"

text \<open>
  A run of the factory: a sequence of calls of \<^verbatim>\<open>insertVertex\<close> and \<^verbatim>\<open>insertElement\<close> on
  a new factory.
\<close>

datatype FactoryCall = InsertVertex | InsertElement GeometryType "nat list"

fun factoryCalls :: "FactoryCall list \<Rightarrow> GridFactory \<Rightarrow> error + GridFactory" where
  "factoryCalls [] f = Inr f"
| "factoryCalls (InsertVertex # cs) f =
     (case insertVertex f of Inl err \<Rightarrow> Inl err | Inr f' \<Rightarrow> factoryCalls cs f')"
| "factoryCalls (InsertElement type vertices # cs) f =
     (case insertElement type vertices f of Inl err \<Rightarrow> Inl err | Inr f' \<Rightarrow> factoryCalls cs f')"

text \<open>
  The unit square of two triangles: four vertices, the triangles \<open>0-1-2\<close> and \<open>1-3-2\<close>,
  which share the edge between the vertices \<open>1\<close> and \<open>2\<close>.
\<close>

definition squareCalls :: "FactoryCall list" where
  "squareCalls =
     [InsertVertex, InsertVertex, InsertVertex, InsertVertex,
      InsertElement \<lparr>basicType = simplex, typeDim = 2\<rparr> [0, 1, 2],
      InsertElement \<lparr>basicType = simplex, typeDim = 2\<rparr> [1, 3, 2]]"


subsection \<open>Notions used to state the properties of the index passes\<close>

text \<open>
  The order in which the leaf pass visits the edges and the vertices: level by level from
  the deepest one down to level \<open>0\<close>, within a level in the order of the list.
\<close>

definition edgeVisits :: "FoamGrid \<Rightarrow> nat list" where
  "edgeVisits g = concat (map (\<lambda>i. edgeList (entityImps g ! i)) (levelsDownward g))"

definition vertexVisits :: "FoamGrid \<Rightarrow> nat list" where
  "vertexVisits g = concat (map (\<lambda>i. vertexList (entityImps g ! i)) (levelsDownward g))"

text \<open>
  The refinement hierarchy of the vertices is well formed when the son of a vertex of
  level \<open>i\<close> is a vertex of a level deeper than \<open>i\<close>.
\<close>

definition sonsOnDeeperLevels :: "FoamGrid \<Rightarrow> bool" where
  "sonsOnDeeperLevels g =
     list_all (\<lambda>i.
        list_all (\<lambda>a. case son (vertexAt g a) of
                        None \<Rightarrow> True
                      | Some s \<Rightarrow> list_ex (\<lambda>j. s \<in> set (vertexList (entityImps g ! j)))
                                   [i + 1..<length (entityImps g)])
          (vertexList (entityImps g ! i)))
       [0..<length (entityImps g)]"

text \<open>Two vertices that differ at most in their leaf index.\<close>

definition sameShape :: "FoamGridVertex \<Rightarrow> FoamGridVertex \<Rightarrow> bool" where
  "sameShape v v' = (v\<lparr>leafIndex := None\<rparr> = v'\<lparr>leafIndex := None\<rparr>)"

text \<open>
  A grid of two levels for concrete runs.  Level \<open>0\<close> holds the vertices \<open>0\<close> and \<open>1\<close>,
  whose sons are the vertices \<open>2\<close> and \<open>3\<close> of level \<open>1\<close>, and the element \<open>0\<close>, which is
  refined into the elements \<open>1\<close> and \<open>2\<close> of level \<open>1\<close>.  Level \<open>1\<close> further holds the
  vertex \<open>4\<close> and the edges \<open>0\<close> and \<open>1\<close>.
\<close>

definition refinedGrid :: FoamGrid where
  "refinedGrid =
     newFoamGrid
       \<lparr>entityImps := [\<lparr>vertexList = [0, 1], edgeList = [], elementList = [0]\<rparr>,
                       \<lparr>vertexList = [2, 3, 4], edgeList = [0, 1], elementList = [1, 2]\<rparr>],
        vertexAt := (vertexAt newFoamGrid)
          (0 := (vertexAt newFoamGrid 0)\<lparr>son := Some 2\<rparr>,
           1 := (vertexAt newFoamGrid 1)\<lparr>son := Some 3\<rparr>),
        elementAt := (elementAt newFoamGrid)
          (0 := (elementAt newFoamGrid 0)\<lparr>elementSonList := [1, 2]\<rparr>)\<rparr>"

text \<open>
  A grid of two levels in which the edge \<open>0\<close> of level \<open>0\<close> is refined into the edges \<open>1\<close>
  and \<open>2\<close> of level \<open>1\<close>.
\<close>

definition refinedEdgeGrid :: FoamGrid where
  "refinedEdgeGrid =
     newFoamGrid
       \<lparr>entityImps := [\<lparr>vertexList = [], edgeList = [0], elementList = []\<rparr>,
                       \<lparr>vertexList = [], edgeList = [1, 2], elementList = []\<rparr>],
        edgeAt := (edgeAt newFoamGrid)
          (0 := (edgeAt newFoamGrid 0)\<lparr>edgeSons := (Some 1, Some 2)\<rparr>)\<rparr>"

subsection \<open>Notions used to state the properties of the factory\<close>

text \<open>
  The triangles a run of the factory has inserted, each as the list of its three corners:
  \<^verbatim>\<open>insertElement\<close> reads the entries \<open>0\<close>, \<open>1\<close> and \<open>2\<close> of the vector it is given.
\<close>

definition corners3 :: "nat list \<Rightarrow> nat list" where
  "corners3 vertices = [vertices ! 0, vertices ! 1, vertices ! 2]"

fun insertedTriangles :: "FactoryCall list \<Rightarrow> nat list list" where
  "insertedTriangles [] = []"
| "insertedTriangles (InsertVertex # cs) = insertedTriangles cs"
| "insertedTriangles (InsertElement type vertices # cs) = vertices # insertedTriangles cs"

text \<open>
  The state of a factory before \<^verbatim>\<open>createGrid\<close>, after the triangles \<open>ts\<close> have been
  inserted: one level, the vertices and elements numbered in the order of insertion, no
  edge yet, every element holding its three corners and three empty edge slots.
\<close>

definition coarseMesh :: "nat list list \<Rightarrow> GridFactory \<Rightarrow> bool" where
  "coarseMesh ts f =
     (\<exists>g. grid f = Some g \<and> length (entityImps g) = 1 \<and> length (freeIdCounter g) = 3
        \<and> vertexArray f = [0..<freeIdCounter g ! 0]
        \<and> elementList (entityImps g ! 0) = [0..<length ts]
        \<and> freeIdCounter g ! 2 = length ts
        \<and> edgeList (entityImps g ! 0) = []
        \<and> freeIdCounter g ! 1 = 0
        \<and> (\<forall>k < length ts. elementVertex (elementAt g k) = corners3 (ts ! k)
                           \<and> length (elementEdges (elementAt g k)) = 3)
        \<and> (\<forall>a. edgeIsLeaf (edgeAt g a)))"

text \<open>
  The two searches of the edge map look for the pair \<open>(v0, v1)\<close> and then for
  \<open>(v1, v0)\<close>: two pairs denote the same edge when they are equal up to their order.
\<close>

definition samePair :: "nat \<times> nat \<Rightarrow> nat \<times> nat \<Rightarrow> bool" where
  "samePair p q = (p = q \<or> p = (snd q, fst q))"

text \<open>
  The invariant of the edge map \<open>m\<close> during the loop of \<^verbatim>\<open>createGrid\<close>, after the
  slots \<open>qs\<close> (an element with a pair of its corners) have been processed.  The edges
  are the addresses below \<open>n\<close>; \<open>ev\<close> gives the vertices of an edge and \<open>ee\<close> its
  incidence list.  The map holds exactly the edges, each under its own pair and never
  under both orders of a pair; the incidence list of an edge holds the elements of the
  slots with its pair, in the order of processing; every slot has its edge and every
  edge has a slot.
\<close>

definition edgeTable ::
  "((nat \<times> nat) \<rightharpoonup> nat) \<Rightarrow> nat \<Rightarrow> (nat \<Rightarrow> nat \<times> nat) \<Rightarrow> (nat \<Rightarrow> nat list)
   \<Rightarrow> (nat \<times> (nat \<times> nat)) list \<Rightarrow> bool" where
  "edgeTable m n ev ee qs =
     ((\<forall>p x. m p = Some x \<longrightarrow> x < n \<and> ev x = p)
      \<and> (\<forall>x < n. m (ev x) = Some x)
      \<and> (\<forall>a b. a \<noteq> b \<longrightarrow> m (a, b) = None \<or> m (b, a) = None)
      \<and> (\<forall>x < n. ee x = map fst (filter (\<lambda>q. samePair (snd q) (ev x)) qs))
      \<and> (\<forall>q \<in> set qs. \<exists>x < n. samePair (snd q) (ev x))
      \<and> (\<forall>x < n. \<exists>q \<in> set qs. samePair (snd q) (ev x)))"

text \<open>
  The pair of corners of edge \<open>i\<close> of the element \<open>el\<close>, the slots of a list of
  elements in the order in which the loop processes them, and the slots of the
  triangles \<open>ts\<close>.
\<close>

definition pairOfSlot :: "(nat \<Rightarrow> nat list) \<Rightarrow> nat \<Rightarrow> nat \<Rightarrow> nat \<times> nat" where
  "pairOfSlot vs el i = (vs el ! subEntity i 0, vs el ! subEntity i 1)"

definition slotsOf :: "(nat \<Rightarrow> nat list) \<Rightarrow> (nat \<Rightarrow> nat) \<Rightarrow> nat list \<Rightarrow> (nat \<times> (nat \<times> nat)) list" where
  "slotsOf vs ne els = concat (map (\<lambda>el. map (\<lambda>i. (el, pairOfSlot vs el i)) [0..<ne el]) els)"

definition triangleSlots :: "nat list list \<Rightarrow> (nat \<times> (nat \<times> nat)) list" where
  "triangleSlots ts = slotsOf (\<lambda>el. corners3 (ts ! el)) (\<lambda>el. 3) [0..<length ts]"

text \<open>
  The invariant of the state of the loop: the map and the grid, with the corners \<open>vs\<close>
  and the numbers of edge slots \<open>ne\<close> of the elements, which the loop leaves alone.
\<close>

definition edgesInv ::
  "(nat \<Rightarrow> nat list) \<Rightarrow> (nat \<Rightarrow> nat) \<Rightarrow> (nat \<times> (nat \<times> nat)) list
   \<Rightarrow> ((nat \<times> nat) \<rightharpoonup> nat) \<times> FoamGrid \<Rightarrow> bool" where
  "edgesInv vs ne qs st =
     (length (freeIdCounter (snd st)) = 3 \<and> entityImps (snd st) \<noteq> []
      \<and> (\<forall>el. elementVertex (elementAt (snd st) el) = vs el)
      \<and> (\<forall>el. length (elementEdges (elementAt (snd st) el)) = ne el)
      \<and> edgeList (entityImps (snd st) ! 0) = [0..<freeIdCounter (snd st) ! 1]
      \<and> (\<forall>a. edgeIsLeaf (edgeAt (snd st) a))
      \<and> edgeTable (fst st) (freeIdCounter (snd st) ! 1)
            (\<lambda>x. edgeVertex (edgeAt (snd st) x)) (\<lambda>x. edgeElements (edgeAt (snd st) x)) qs)"

text \<open>
  One iteration of the loop of \<^verbatim>\<open>createGrid\<close> that sets the boundary ids
  (lines 179-182).
\<close>

definition boundaryStep :: "nat \<Rightarrow> FoamGrid \<times> nat \<Rightarrow> FoamGrid \<times> nat" where
  "boundaryStep = (\<lambda>a (g, boundaryIdCounter).
      (g\<lparr>edgeAt := (edgeAt g)(a := (edgeAt g a)\<lparr>boundaryId := Some boundaryIdCounter\<rparr>)\<rparr>,
       boundaryIdCounter + 1))"

text \<open>
  The factory after the calls that build the unit square, and the grid that
  \<^verbatim>\<open>createGrid\<close> hands over for it.
\<close>

definition squareFactory :: GridFactory where
  "squareFactory = projr (factoryCalls squareCalls newGridFactory)"

definition squareGrid :: FoamGrid where
  "squareGrid = the (fst (projr (createGrid squareFactory)))"



text \<open>
  What the calls of \<^verbatim>\<open>insertVertex\<close> and \<^verbatim>\<open>insertElement\<close> have put into a grid: the
  vertices and the elements of each level in the order of insertion, the id of every
  vertex, and the corners and the id of every element.
\<close>

definition insertedMesh ::
  "FoamGrid \<Rightarrow> nat list list \<times> nat list list \<times> (nat \<Rightarrow> nat) \<times> (nat \<Rightarrow> nat list \<times> nat)" where
  "insertedMesh g =
     (map vertexList (entityImps g), map elementList (entityImps g),
      (\<lambda>a. entityId (vertexAt g a)),
      (\<lambda>a. (elementVertex (elementAt g a), entityId (elementAt g a))))"



section \<open>Properties of the level intersection iterator\<close>

lemma skipNeighbors_stop:
  "n < length xs \<Longrightarrow> xs ! n \<noteq> c \<Longrightarrow> level m (xs ! n) = level m c
   \<Longrightarrow> skipNeighbors m c xs (n, ni) = (n, ni)"
  by (subst skipNeighbors.simps) auto

lemma skipNeighbors_first:
  "n \<le> k \<Longrightarrow> k < length xs \<Longrightarrow> xs ! k \<noteq> c \<Longrightarrow> level m (xs ! k) = level m c \<Longrightarrow>
   (\<forall>j. n \<le> j \<and> j < k \<longrightarrow> (xs ! j = c \<or> level m (xs ! j) \<noteq> level m c)) \<Longrightarrow>
   skipNeighbors m c xs (n, ni) = (k, ni + (k - n))"
proof (induction m c xs "(n, ni)" arbitrary: n ni rule: skipNeighbors.induct)
  case (1 m c xs n ni)
  show ?case
  proof (cases "n = k")
    case True
    with 1 show ?thesis by (simp add: skipNeighbors_stop)
  next
    case False
    with 1 have lt: "n < k" by simp
    with 1 have skip: "xs ! n = c \<or> level m (xs ! n) \<noteq> level m c" by auto
    have "skipNeighbors m c xs (n + 1, ni + 1) = (k, (ni + 1) + (k - (n + 1)))"
      using 1 lt skip by (intro 1(1)) auto
    with lt skip 1 show ?thesis by (subst skipNeighbors.simps) auto
  qed
qed

lemma skipNeighbors_none:
  "n \<le> length xs \<Longrightarrow>
   (\<forall>j. n \<le> j \<and> j < length xs \<longrightarrow> (xs ! j = c \<or> level m (xs ! j) \<noteq> level m c)) \<Longrightarrow>
   skipNeighbors m c xs (n, ni) = (length xs, ni + (length xs - n))"
proof (induction m c xs "(n, ni)" arbitrary: n ni rule: skipNeighbors.induct)
  case (1 m c xs n ni)
  show ?case
  proof (cases "n = length xs")
    case True
    then show ?thesis by (subst skipNeighbors.simps) simp
  next
    case False
    with 1 have lt: "n < length xs" by simp
    with 1 have skip: "xs ! n = c \<or> level m (xs ! n) \<noteq> level m c" by auto
    have "skipNeighbors m c xs (n + 1, ni + 1) = (length xs, (ni + 1) + (length xs - (n + 1)))"
      using 1 lt skip by (intro 1(1)) auto
    with lt skip 1 show ?thesis by (subst skipNeighbors.simps) auto
  qed
qed

lemma levelSearch_found:
  assumes "edgeIndex it < corners"
      and "skipNeighbors m (center it) (elements (edges m (center it) ! edgeIndex it)) (0, 0) = (n, ni)"
      and "n \<noteq> length (elements (edges m (center it) ! edgeIndex it))"
  shows "levelSearch m it = it\<lparr>neighbor := Some n, neighborIndex := ni\<rparr>"
  using assms by (subst levelSearch.simps) (simp add: Let_def)

lemma levelSearch_boundary:
  assumes "edgeIndex it < corners"
      and "skipNeighbors m (center it) (elements (edges m (center it) ! edgeIndex it)) (0, 0) = (n, ni)"
      and "n = length (elements (edges m (center it) ! edgeIndex it))"
      and "length (elements (edges m (center it) ! edgeIndex it)) = 1"
  shows "levelSearch m it = it\<lparr>neighbor := Some n, neighborIndex := 1\<rparr>"
  using assms by (subst levelSearch.simps) (simp add: Let_def)

lemma levelSearch_advance:
  assumes "edgeIndex it < corners"
      and "skipNeighbors m (center it) (elements (edges m (center it) ! edgeIndex it)) (0, 0) = (n, ni)"
      and "n = length (elements (edges m (center it) ! edgeIndex it))"
      and "length (elements (edges m (center it) ! edgeIndex it)) \<noteq> 1"
  shows "levelSearch m it
         = levelSearch m (it\<lparr>neighbor := Some n, neighborIndex := ni, edgeIndex := edgeIndex it + 1\<rparr>)"
  using assms by (subst levelSearch.simps) (simp add: Let_def)

lemma levelSearch_end:
  assumes "\<not> edgeIndex it < corners"
  shows "levelSearch m it = it\<lparr>neighborIndex := 0\<rparr>"
  using assms by (subst levelSearch.simps) simp

lemma levelSearch_reset:
  assumes "edgeIndex it < corners"
  shows "levelSearch m (it\<lparr>neighbor := a, neighborIndex := b\<rparr>) = levelSearch m it"
  using assms
  by (subst levelSearch.simps, subst (2) levelSearch.simps) (simp add: Let_def split: prod.splits)

text \<open>
  The scan of \<^verbatim>\<open>increment\<close>, entered at the top of an incidence list, is the scan of the
  constructor.
\<close>

lemma incrementSearch_levelSearch:
  "(edgeIndex it < corners \<longrightarrow> neighbor it = Some 0 \<and> neighborIndex it = 0)
   \<Longrightarrow> incrementSearch m it = Inr (levelSearch m it)"
proof (induction m it rule: incrementSearch.induct)
  case (1 m it)
  show ?case
  proof (cases "edgeIndex it < corners")
    case False
    then show ?thesis
      by (subst incrementSearch.simps, subst levelSearch.simps) simp
  next
    case True
    with 1 have nb: "neighbor it = Some 0" "neighborIndex it = 0" by auto
    define xs where "xs = elements (edges m (center it) ! edgeIndex it)"
    obtain n ni where sk: "skipNeighbors m (center it) xs (0, 0) = (n, ni)"
      by (cases "skipNeighbors m (center it) xs (0, 0)")
    show ?thesis
    proof (cases "n = length xs \<and> length xs \<noteq> 1")
      case False
      then show ?thesis
        using True nb sk
        by (subst incrementSearch.simps, subst levelSearch.simps)
           (auto simp: Let_def xs_def [symmetric])
    next
      case adv: True
      let ?it' = "it\<lparr>neighbor := Some n, neighborIndex := ni, edgeIndex := edgeIndex it + 1\<rparr>"
      let ?it'' = "if edgeIndex ?it' < corners
                   then ?it'\<lparr>neighbor := Some 0, neighborIndex := 0\<rparr> else ?it'"
      have ih: "incrementSearch m ?it'' = Inr (levelSearch m ?it'')"
        using True nb sk adv
        by (intro "1.IH" [OF True nb(1) refl refl, of n ni]) (auto simp: xs_def)
      have same: "levelSearch m ?it'' = levelSearch m ?it'"
        using levelSearch_reset [where it = ?it' and m = m and a = "Some 0" and b = 0] by simp
      have l: "levelSearch m it = levelSearch m ?it'"
        using True sk adv by (subst levelSearch.simps) (simp add: Let_def xs_def [symmetric])
      have r: "incrementSearch m it = incrementSearch m ?it''"
        using True nb sk adv by (subst incrementSearch.simps) (simp add: Let_def xs_def [symmetric])
      show ?thesis using ih same l r by simp
    qed
  qed
qed

text \<open>
  Entering the constructor's scan at edge \<open>e\<close> gives the iterator the constructor builds
  for \<open>e\<close>, as far as \<^verbatim>\<open>equals\<close> can tell.
\<close>

lemma levelSearch_equals_constructor:
  assumes "e \<le> corners"
      and "e < corners \<Longrightarrow> c \<in> set (elements (edges m c ! e))"
  shows "equals (levelSearch m \<lparr>center = c, edgeIndex = e, neighbor = nb, neighborIndex = ni\<rparr>)
                (FoamGridLevelIntersectionIterator m c e)"
proof (cases "e = corners")
  case True
  then show ?thesis
    by (simp add: levelSearch_end FoamGridLevelIntersectionIterator_def equals_def)
next
  case False
  with assms have e: "e < corners" and own: "c \<in> set (elements (edges m c ! e))" by auto
  define xs where "xs = elements (edges m c ! e)"
  let ?it = "\<lparr>center = c, edgeIndex = e, neighbor = nb, neighborIndex = ni\<rparr>"
  show ?thesis
  proof (cases "length xs = 1")
    case True
    then obtain x where "xs = [x]" by (cases xs) auto
    with own have xs: "xs = [c]" by (simp add: xs_def)
    have "skipNeighbors m c xs (0, 0) = (length xs, 0 + (length xs - 0))"
      by (intro skipNeighbors_none) (auto simp: xs)
    then have "levelSearch m ?it = ?it\<lparr>neighbor := Some 1, neighborIndex := 1\<rparr>"
      using e xs by (intro levelSearch_boundary) (auto simp: xs_def)
    then show ?thesis
      using e xs by (simp add: FoamGridLevelIntersectionIterator_def equals_def xs_def)
  next
    case False
    have "levelSearch m ?it
          = levelSearch m \<lparr>center = c, edgeIndex = e, neighbor = None, neighborIndex = 0\<rparr>"
      using e
        levelSearch_reset [where it = "\<lparr>center = c, edgeIndex = e, neighbor = None, neighborIndex = 0\<rparr>"
                             and m = m and a = nb and b = ni]
      by simp
    then show ?thesis
      using e False by (simp add: FoamGridLevelIntersectionIterator_def equals_def xs_def)
  qed
qed

text \<open>
  Claim C1.  Let \<open>c\<close> be a center element, \<open>e < corners\<close> one of its edge slots, and let \<open>c\<close>
  be listed among the elements incident to its own edges.  The iterator constructed at
  \<open>e\<close> then is in one of three states, decided by the incidence list \<open>xs\<close> of that edge:
  \<^item> if \<open>xs ! k\<close> is the first entry that is not \<open>c\<close> and lies on the level of \<open>c\<close>, the
    iterator stays at edge \<open>e\<close> with \<^verbatim>\<open>neighbor_\<close> pointing at entry \<open>k\<close>;
  \<^item> if no entry qualifies and \<open>xs\<close> has exactly one entry, the iterator stays at edge \<open>e\<close> as
    a boundary intersection: \<^verbatim>\<open>neighborIndex_\<close> is the size of the list, and no entry is
    pointed at;
  \<^item> if no entry qualifies and \<open>xs\<close> has more than one entry, the iterator is the result of
    the scan entered at edge \<open>e + 1\<close>, which starts again at the top of that edge's list; it
    is \<^verbatim>\<open>equals\<close> to the iterator constructed at \<open>e + 1\<close>, and it is the end iterator
    (\<^verbatim>\<open>edgeIndex_ == corners()\<close>, \<^verbatim>\<open>neighborIndex_ == 0\<close>) when \<open>e + 1 = corners\<close>.

  \<^verbatim>\<open>increment\<close> leaves a boundary intersection by the same scan: incrementing the boundary
  state of edge \<open>e\<close> gives an iterator \<^verbatim>\<open>equals\<close> to the one constructed at \<open>e + 1\<close>.
\<close>

theorem level_iterator_scan:
  assumes e: "e < corners"
      and own: "c \<in> set (elements (edges m c ! e))"
      and own': "e + 1 < corners \<longrightarrow> c \<in> set (elements (edges m c ! (e + 1)))"
  shows "(\<forall>k. k < length (elements (edges m c ! e)) \<and> matches m c (elements (edges m c ! e) ! k)
               \<and> (\<forall>j<k. \<not> matches m c (elements (edges m c ! e) ! j))
            \<longrightarrow> FoamGridLevelIntersectionIterator m c e
                  = \<lparr>center = c, edgeIndex = e, neighbor = Some k, neighborIndex = k\<rparr>)
       \<and> ((\<forall>x \<in> set (elements (edges m c ! e)). \<not> matches m c x)
            \<and> length (elements (edges m c ! e)) = 1
            \<longrightarrow> FoamGridLevelIntersectionIterator m c e
                  = \<lparr>center = c, edgeIndex = e, neighbor = None, neighborIndex = 1\<rparr>
              \<and> (\<exists>it'. levelIncrement m (FoamGridLevelIntersectionIterator m c e) = Inr it'
                        \<and> equals it' (FoamGridLevelIntersectionIterator m c (e + 1))))
       \<and> ((\<forall>x \<in> set (elements (edges m c ! e)). \<not> matches m c x)
            \<and> length (elements (edges m c ! e)) > 1
            \<longrightarrow> FoamGridLevelIntersectionIterator m c e
                  = levelSearch m \<lparr>center = c, edgeIndex = e + 1,
                       neighbor = Some (length (elements (edges m c ! e))),
                       neighborIndex = length (elements (edges m c ! e))\<rparr>
              \<and> equals (FoamGridLevelIntersectionIterator m c e)
                        (FoamGridLevelIntersectionIterator m c (e + 1))
              \<and> (e + 1 = corners
                   \<longrightarrow> edgeIndex (FoamGridLevelIntersectionIterator m c e) = corners
                     \<and> neighborIndex (FoamGridLevelIntersectionIterator m c e) = 0))"
proof -
  define xs where "xs = elements (edges m c ! e)"
  let ?it = "\<lparr>center = c, edgeIndex = e, neighbor = None, neighborIndex = 0\<rparr>"
  have e': "e + 1 \<le> corners" using e by simp
  have own'': "e + 1 < corners \<Longrightarrow> c \<in> set (elements (edges m c ! (e + 1)))"
    using own' by simp
  have one: "\<not> matches m c (xs ! 0)" if "length xs = 1"
  proof -
    from that obtain x where "xs = [x]" by (cases xs) auto
    with own show ?thesis by (simp add: xs_def matches_def)
  qed
  have found: "FoamGridLevelIntersectionIterator m c e
                  = \<lparr>center = c, edgeIndex = e, neighbor = Some k, neighborIndex = k\<rparr>"
    if k: "k < length xs" and mk: "matches m c (xs ! k)"
      and first: "\<forall>j<k. \<not> matches m c (xs ! j)" for k
  proof -
    have len: "length xs \<noteq> 1"
    proof
      assume l: "length xs = 1"
      with k have "k = 0" by simp
      with one l mk show False by simp
    qed
    have sk: "skipNeighbors m c xs (0, 0) = (k, 0 + (k - 0))"
      using k mk first by (intro skipNeighbors_first) (auto simp: matches_def)
    have "levelSearch m ?it = ?it\<lparr>neighbor := Some k, neighborIndex := k\<rparr>"
      using e k sk by (intro levelSearch_found) (auto simp: xs_def)
    then show ?thesis
      using e len by (simp add: FoamGridLevelIntersectionIterator_def Let_def xs_def [symmetric])
  qed
  have bnd: "FoamGridLevelIntersectionIterator m c e
                  = \<lparr>center = c, edgeIndex = e, neighbor = None, neighborIndex = 1\<rparr>"
    if "length xs = 1"
    using that e by (simp add: FoamGridLevelIntersectionIterator_def Let_def xs_def [symmetric])
  have inc: "\<exists>it'. levelIncrement m (FoamGridLevelIntersectionIterator m c e) = Inr it'
                  \<and> equals it' (FoamGridLevelIntersectionIterator m c (e + 1))"
    if len: "length xs = 1"
  proof -
    let ?b = "\<lparr>center = c, edgeIndex = e + 1, neighbor = None, neighborIndex = 1\<rparr>"
    let ?b' = "if e + 1 < corners then ?b\<lparr>neighbor := Some 0, neighborIndex := 0\<rparr> else ?b"
    have "levelIncrement m (FoamGridLevelIntersectionIterator m c e) = incrementSearch m ?b'"
      using e len by (simp add: bnd levelIncrement_def Let_def xs_def [symmetric])
    also have "\<dots> = Inr (levelSearch m ?b')"
      by (intro incrementSearch_levelSearch) simp
    finally have "levelIncrement m (FoamGridLevelIntersectionIterator m c e)
                  = Inr (levelSearch m ?b')" .
    moreover have "equals (levelSearch m ?b') (FoamGridLevelIntersectionIterator m c (e + 1))"
    proof (cases "e + 1 < corners")
      case True
      then show ?thesis
        using levelSearch_equals_constructor [OF e' own'', of "Some 0" 0] by simp
    next
      case False
      then show ?thesis
        using levelSearch_equals_constructor [OF e' own'', of None 1] by simp
    qed
    ultimately show ?thesis by blast
  qed
  have adv: "FoamGridLevelIntersectionIterator m c e
                  = levelSearch m \<lparr>center = c, edgeIndex = e + 1,
                       neighbor = Some (length xs), neighborIndex = length xs\<rparr>"
    if none: "\<forall>x \<in> set xs. \<not> matches m c x" and len: "length xs > 1"
  proof -
    have sk: "skipNeighbors m c xs (0, 0) = (length xs, 0 + (length xs - 0))"
      using none by (intro skipNeighbors_none) (auto simp: matches_def)
    have "levelSearch m ?it = levelSearch m (?it\<lparr>neighbor := Some (length xs),
             neighborIndex := length xs, edgeIndex := edgeIndex ?it + 1\<rparr>)"
      using e len sk by (intro levelSearch_advance) (auto simp: xs_def)
    then show ?thesis
      using e len by (simp add: FoamGridLevelIntersectionIterator_def Let_def xs_def [symmetric])
  qed
  have eq: "equals (levelSearch m \<lparr>center = c, edgeIndex = e + 1,
                       neighbor = Some (length xs), neighborIndex = length xs\<rparr>)
                   (FoamGridLevelIntersectionIterator m c (e + 1))"
    by (rule levelSearch_equals_constructor [OF e' own''])
  have fin: "edgeIndex (levelSearch m \<lparr>center = c, edgeIndex = e + 1,
                       neighbor = Some (length xs), neighborIndex = length xs\<rparr>) = corners
          \<and> neighborIndex (levelSearch m \<lparr>center = c, edgeIndex = e + 1,
                       neighbor = Some (length xs), neighborIndex = length xs\<rparr>) = 0"
    if "e + 1 = corners"
    using that by (simp add: levelSearch_end)
  show ?thesis
    unfolding xs_def [symmetric] using found bnd inc adv eq fin by auto
qed

theorem level_iterator_scan_witness:
  "FoamGridLevelIntersectionIterator exampleMesh 0 0
     = \<lparr>center = 0, edgeIndex = 0, neighbor = Some 1, neighborIndex = 1\<rparr>
   \<and> FoamGridLevelIntersectionIterator exampleMesh 0 1
     = \<lparr>center = 0, edgeIndex = 1, neighbor = None, neighborIndex = 1\<rparr>
   \<and> (\<exists>it'. levelIncrement exampleMesh (FoamGridLevelIntersectionIterator exampleMesh 0 1) = Inr it'
            \<and> equals it' (FoamGridLevelIntersectionIterator exampleMesh 0 2))
   \<and> edgeIndex (FoamGridLevelIntersectionIterator exampleMesh 0 2) = corners
   \<and> neighborIndex (FoamGridLevelIntersectionIterator exampleMesh 0 2) = 0"
proof -
  have a: "(0::nat) < corners" "(1::nat) < corners" "(2::nat) < corners"
    by (simp_all add: corners_def)
  have b: "(0::nat) \<in> set (elements (edges exampleMesh 0 ! 0))"
          "(0::nat) \<in> set (elements (edges exampleMesh 0 ! 1))"
          "(0::nat) \<in> set (elements (edges exampleMesh 0 ! 2))"
    by (simp_all add: exampleMesh_def)
  have c: "0 + 1 < corners \<longrightarrow> (0::nat) \<in> set (elements (edges exampleMesh 0 ! (0 + 1)))"
          "1 + 1 < corners \<longrightarrow> (0::nat) \<in> set (elements (edges exampleMesh 0 ! (1 + 1)))"
          "2 + 1 < corners \<longrightarrow> (0::nat) \<in> set (elements (edges exampleMesh 0 ! (2 + 1)))"
    by (simp_all add: exampleMesh_def corners_def)
  have p0: "1 < length (elements (edges exampleMesh 0 ! 0))
            \<and> matches exampleMesh 0 (elements (edges exampleMesh 0 ! 0) ! 1)
            \<and> (\<forall>j<1. \<not> matches exampleMesh 0 (elements (edges exampleMesh 0 ! 0) ! j))"
    by (simp add: exampleMesh_def matches_def)
  have p1: "(\<forall>x \<in> set (elements (edges exampleMesh 0 ! 1)). \<not> matches exampleMesh 0 x)
            \<and> length (elements (edges exampleMesh 0 ! 1)) = 1"
    by (simp add: exampleMesh_def matches_def)
  have p2: "(\<forall>x \<in> set (elements (edges exampleMesh 0 ! 2)). \<not> matches exampleMesh 0 x)
            \<and> length (elements (edges exampleMesh 0 ! 2)) > 1"
    by (simp add: exampleMesh_def matches_def)
  have q2: "2 + 1 = corners" by (simp add: corners_def)
  note r0 = level_iterator_scan [OF a(1) b(1) c(1), THEN conjunct1, rule_format, OF p0]
  note r1 = level_iterator_scan [OF a(2) b(2) c(2), THEN conjunct2, THEN conjunct1, rule_format, OF p1]
  note r2 = level_iterator_scan [OF a(3) b(3) c(3), THEN conjunct2, THEN conjunct2, rule_format, OF p2]
  note r2' = r2 [THEN conjunct2, THEN conjunct2, rule_format, OF q2]
  show ?thesis
    using r0 r1 [unfolded one_add_one] r2' by blast
qed

section \<open>Properties of the leaf intersection iterator\<close>

text \<open>
  Claim C2, evaluated on the example mesh.  Edge \<open>0\<close> of element \<open>0\<close> is a leaf edge with
  the incidence list \<open>[0, 1]\<close>, so the incident elements of its leaf descendants without
  the center are \<open>[1]\<close>.  The iterator started at that edge presents element \<open>1\<close> twice
  before \<^verbatim>\<open>topLevelEdgeIter_\<close> leaves the edge.  Started for element \<open>1\<close> at the same
  edge, where the center is the second entry of the list, it presents \<open>0\<close>, then the
  center \<open>1\<close> itself, and then both again.
\<close>

theorem leaf_iterator_repeats_neighbors:
  "filter (\<lambda>x. x \<noteq> 0) (traverseAndPushLeafEdges (edges exampleMesh 0 ! 0) []) = [1]
   \<and> neighborsAt 10 0 (FoamGridLeafIntersectionIterator exampleMesh 0 0) = [1, 1]
   \<and> filter (\<lambda>x. x \<noteq> 1) (traverseAndPushLeafEdges (edges exampleMesh 1 ! 0) []) = [0]
   \<and> neighborsAt 10 0 (FoamGridLeafIntersectionIterator exampleMesh 1 0) = [0, 1, 0, 1]"
  by code_simp

section \<open>Incrementing a one-past-the-end iterator\<close>

text \<open>
  Claim C6 as stated fails for the level iterator: on the end iterator of element \<open>0\<close> of
  the example mesh \<^verbatim>\<open>increment\<close> returns normally and leaves the iterator as it was.
\<close>

theorem level_increment_at_end_counterexample:
  "edgeIndex (FoamGridLevelIntersectionIterator exampleMesh 0 corners) = corners
   \<and> levelIncrement exampleMesh (FoamGridLevelIntersectionIterator exampleMesh 0 corners)
       = Inr (FoamGridLevelIntersectionIterator exampleMesh 0 corners)"
  by (simp add: FoamGridLevelIntersectionIterator_def levelIncrement_def)

text \<open>
  Claim C6, amended.  Incrementing a leaf intersection iterator whose \<^verbatim>\<open>topLevelEdgeIter_\<close>
  is at \<^verbatim>\<open>leafEdges_.end()\<close>, as the one-after-last constructor builds it, throws
  \<^verbatim>\<open>InvalidStateException\<close>.  Incrementing a level intersection iterator whose
  \<^verbatim>\<open>edgeIndex_\<close> equals \<^verbatim>\<open>corners()\<close> throws nothing: it stores \<^verbatim>\<open>neighborIndex_=0\<close> and
  returns, which leaves the end iterator built by the constructor unchanged.
\<close>

theorem increment_at_end:
  "(topLevelEdgeIter it = Some (length (leafEdges it))
      \<longrightarrow> leafIncrement it = Inl InvalidStateException)
   \<and> leafIncrement (FoamGridLeafIntersectionIteratorEnd c) = Inl InvalidStateException
   \<and> (edgeIndex lit = corners \<longrightarrow> levelIncrement m lit = Inr (lit\<lparr>neighborIndex := 0\<rparr>))
   \<and> levelIncrement m (FoamGridLevelIntersectionIterator m c corners)
       = Inr (FoamGridLevelIntersectionIterator m c corners)"
  by (simp add: leafIncrement_def FoamGridLeafIntersectionIteratorEnd_def levelIncrement_def
      FoamGridLevelIntersectionIterator_def)

theorem increment_at_end_witness:
  "topLevelEdgeIter (FoamGridLeafIntersectionIteratorEnd 0)
     = Some (length (leafEdges (FoamGridLeafIntersectionIteratorEnd 0)))
   \<and> leafIncrement (FoamGridLeafIntersectionIteratorEnd 0) = Inl InvalidStateException
   \<and> edgeIndex \<lparr>center = 0, edgeIndex = 3, neighbor = Some 2, neighborIndex = 2\<rparr> = corners
   \<and> levelIncrement exampleMesh \<lparr>center = 0, edgeIndex = 3, neighbor = Some 2, neighborIndex = 2\<rparr>
       = Inr \<lparr>center = 0, edgeIndex = 3, neighbor = Some 2, neighborIndex = 0\<rparr>"
proof -
  have a: "topLevelEdgeIter (FoamGridLeafIntersectionIteratorEnd 0)
             = Some (length (leafEdges (FoamGridLeafIntersectionIteratorEnd 0)))"
    by (simp add: FoamGridLeafIntersectionIteratorEnd_def)
  have b: "edgeIndex \<lparr>center = 0, edgeIndex = 3, neighbor = Some 2, neighborIndex = 2\<rparr> = corners"
    by (simp add: corners_def)
  note r = increment_at_end [of "FoamGridLeafIntersectionIteratorEnd 0" 0
             "\<lparr>center = 0, edgeIndex = 3, neighbor = Some 2, neighborIndex = 2\<rparr>" exampleMesh]
  from r a have "leafIncrement (FoamGridLeafIntersectionIteratorEnd 0) = Inl InvalidStateException"
    by blast
  moreover from r b
  have "levelIncrement exampleMesh \<lparr>center = 0, edgeIndex = 3, neighbor = Some 2, neighborIndex = 2\<rparr>
       = Inr (\<lparr>center = 0, edgeIndex = 3, neighbor = Some 2, neighborIndex = 2\<rparr>\<lparr>neighborIndex := 0\<rparr>)"
    by blast
  ultimately show ?thesis using a b by simp
qed

section \<open>Properties of the hierarchic iterator\<close>

lemma push_sons:
  "fold (\<lambda>i st. ss ! i # st) [0..<length ss] rest = rev ss @ rest"
proof -
  have "fold (\<lambda>i st. ss ! i # st) [0..<length ss] rest
        = fold (\<lambda>s st. s # st) (map (\<lambda>i. ss ! i) [0..<length ss]) rest"
    by (simp add: fold_map comp_def)
  also have "\<dots> = rev ss @ rest"
    by (simp add: map_nth fold_Cons_rev)
  finally show ?thesis .
qed

lemma visits_stack:
  "visits it = concat (map (\<lambda>t. t # visitOrder (maxlevel it) t) (elemStack it))"
proof (induction it rule: visits.induct)
  case (1 it)
  show ?case
  proof (cases "elemStack it")
    case Nil
    then show ?thesis by (subst visits.simps) simp
  next
    case (Cons tp rest)
    obtain l ss where tp: "tp = ElementImp l ss" by (cases tp)
    have ih: "visits (hierarchicIncrement it)
              = concat (map (\<lambda>t. t # visitOrder (maxlevel (hierarchicIncrement it)) t)
                  (elemStack (hierarchicIncrement it)))"
      using Cons by (rule "1.IH")
    have ml: "maxlevel (hierarchicIncrement it) = maxlevel it"
      by (simp add: hierarchicIncrement_def Let_def split: list.splits)
    have st: "elemStack (hierarchicIncrement it)
              = (if l < maxlevel it then rev ss @ rest else rest)"
      using Cons tp
      by (auto simp: hierarchicIncrement_def Let_def nSons_def elementIsLeaf_def push_sons)
    have "visits it = tp # visits (hierarchicIncrement it)"
      using Cons by (subst visits.simps) simp
    then show ?thesis
      using ih ml st Cons tp by simp
  qed
qed

lemma descendants_deeper:
  "wellLevelled e \<Longrightarrow> d \<in> set (descendants e) \<Longrightarrow> elementLevel e < elementLevel d"
proof (induction e arbitrary: d)
  case (ElementImp l ss)
  from ElementImp.prems(2) obtain s where s: "s \<in> set ss" and d: "d = s \<or> d \<in> set (descendants s)"
    by auto
  from ElementImp.prems(1) s have ls: "elementLevel s = l + 1" and ws: "wellLevelled s" by auto
  from d show ?case
  proof
    assume "d = s" with ls show ?thesis by simp
  next
    assume "d \<in> set (descendants s)"
    with ElementImp.IH [OF s ws] ls show ?thesis by force
  qed
qed

lemma mset_concat_rev: "mset (concat (map f (rev xs))) = mset (concat (map f xs))"
  by (induction xs) simp_all

lemma mset_concat_cong:
  "(\<forall>x \<in> set xs. mset (f x) = mset (g x)) \<Longrightarrow> mset (concat (map f xs)) = mset (concat (map g xs))"
  by (induction xs) simp_all

lemma visitOrder_descendants:
  "wellLevelled e \<Longrightarrow>
   mset (visitOrder L e) = mset (filter (\<lambda>d. elementLevel d \<le> L) (descendants e))"
proof (induction e)
  case (ElementImp l ss)
  show ?case
  proof (cases "l < L")
    case False
    have "\<forall>d \<in> set (descendants (ElementImp l ss)). \<not> elementLevel d \<le> L"
      using descendants_deeper [OF ElementImp.prems] False by fastforce
    then have "filter (\<lambda>d. elementLevel d \<le> L) (descendants (ElementImp l ss)) = []"
      by (simp only: filter_False)
    with False show ?thesis by simp
  next
    case True
    have each: "mset (s # visitOrder L s)
                = mset (filter (\<lambda>d. elementLevel d \<le> L) (s # descendants s))"
      if s: "s \<in> set ss" for s
    proof -
      from ElementImp.prems s have ls: "elementLevel s = l + 1" and ws: "wellLevelled s" by auto
      from ls True have "elementLevel s \<le> L" by simp
      with ElementImp.IH [OF s ws] show ?thesis by simp
    qed
    have "mset (concat (map (\<lambda>s. s # visitOrder L s) ss))
          = mset (concat (map (\<lambda>s. filter (\<lambda>d. elementLevel d \<le> L) (s # descendants s)) ss))"
      using each by (intro mset_concat_cong) blast
    also have "\<dots> = mset (filter (\<lambda>d. elementLevel d \<le> L) (concat (map (\<lambda>s. s # descendants s) ss)))"
      by (simp only: filter_concat map_map comp_def)
    finally have "mset (concat (map (\<lambda>s. s # visitOrder L s) ss))
          = mset (filter (\<lambda>d. elementLevel d \<le> L) (concat (map (\<lambda>s. s # descendants s) ss)))" .
    moreover have "visitOrder L (ElementImp l ss) = concat (map (\<lambda>s. s # visitOrder L s) (rev ss))"
      using True by simp
    moreover have "descendants (ElementImp l ss) = concat (map (\<lambda>s. s # descendants s) ss)"
      by simp
    ultimately show ?thesis by (simp only: mset_concat_rev)
  qed
qed

lemma hierarchicIncrement_target:
  "elemStack it \<noteq> [] \<Longrightarrow>
   target (hierarchicIncrement it)
     = (case elemStack (hierarchicIncrement it) of [] \<Rightarrow> None | tp # _ \<Rightarrow> Some tp)"
  by (cases "elemStack it") (simp_all add: hierarchicIncrement_def Let_def)

lemma visits_positions:
  "elemStack ((hierarchicIncrement ^^ length (visits it)) it) = []
   \<and> (\<forall>k < length (visits it).
         \<exists>rest. elemStack ((hierarchicIncrement ^^ k) it) = visits it ! k # rest)"
proof (induction it rule: visits.induct)
  case (1 it)
  show ?case
  proof (cases "elemStack it")
    case Nil
    then have "visits it = []" by (subst visits.simps) simp
    with Nil show ?thesis by simp
  next
    case (Cons tp rest)
    then have v: "visits it = tp # visits (hierarchicIncrement it)"
      by (subst visits.simps) simp
    note ih = "1.IH" [OF Cons]
    have a: "elemStack ((hierarchicIncrement ^^ length (visits it)) it) = []"
      using ih by (simp add: v funpow_swap1)
    have b: "\<exists>rest. elemStack ((hierarchicIncrement ^^ k) it) = visits it ! k # rest"
      if "k < length (visits it)" for k
    proof (cases k)
      case 0
      with Cons v show ?thesis by simp
    next
      case (Suc k')
      with that v have "k' < length (visits (hierarchicIncrement it))" by simp
      with ih obtain r where
        "elemStack ((hierarchicIncrement ^^ k') (hierarchicIncrement it))
         = visits (hierarchicIncrement it) ! k' # r" by blast
      with Suc v show ?thesis by (simp add: funpow_swap1)
    qed
    from a b show ?thesis by blast
  qed
qed

text \<open>
  Claim C7.  In a hierarchy where every son lies one level below its father, the
  iterator started at \<open>E\<close> with bound \<open>L\<close> visits the strict descendants of \<open>E\<close> in
  depth-first pre-order (each element before its own descendants, never descending below
  an element of level \<open>L\<close> or more); the visited elements are exactly the strict
  descendants of level at most \<open>L\<close>, each as often as it occurs below \<open>E\<close>, that is once;
  and after as many calls of \<^verbatim>\<open>increment\<close> as there are visited elements the stack is empty
  and the iterator points to \<^verbatim>\<open>nullptr\<close>.
\<close>

theorem hierarchic_traversal:
  assumes wl: "wellLevelled E"
  shows "visits (hierarchicStart L E) = visitOrder L E
       \<and> mset (visits (hierarchicStart L E))
           = mset (filter (\<lambda>d. elementLevel d \<le> L) (descendants E))
       \<and> (\<forall>k < length (visits (hierarchicStart L E)).
             target ((hierarchicIncrement ^^ k) (hierarchicStart L E))
               = Some (visits (hierarchicStart L E) ! k))
       \<and> elemStack ((hierarchicIncrement ^^ length (visits (hierarchicStart L E))) (hierarchicStart L E)) = []
       \<and> target ((hierarchicIncrement ^^ length (visits (hierarchicStart L E))) (hierarchicStart L E)) = None"
proof -
  define it0 where "it0 = hierarchicStart L E"
  have it0: "it0 = hierarchicIncrement \<lparr>maxlevel = L, elemStack = [E], target = Some E\<rparr>"
    by (simp add: it0_def hierarchicStart_def)
  let ?init = "\<lparr>maxlevel = L, elemStack = [E], target = Some E\<rparr>"
  obtain l ss where E: "E = ElementImp l ss" by (cases E)
  have st: "elemStack it0 = (if l < L then rev ss else [])"
    by (auto simp: it0 E hierarchicIncrement_def Let_def nSons_def elementIsLeaf_def push_sons)
  have ml: "maxlevel it0 = L"
    by (simp add: it0 hierarchicIncrement_def Let_def)
  have order: "visits it0 = visitOrder L E"
    by (simp add: visits_stack st ml E)
  have ms: "mset (visits it0) = mset (filter (\<lambda>d. elementLevel d \<le> L) (descendants E))"
    using visitOrder_descendants [OF wl] order by simp
  have pw: "(hierarchicIncrement ^^ k) it0 = hierarchicIncrement ((hierarchicIncrement ^^ k) ?init)" for k
    by (simp add: it0 funpow_swap1)
  have ne: "elemStack ((hierarchicIncrement ^^ k) ?init) \<noteq> []" if "k \<le> length (visits it0)" for k
  proof (cases k)
    case 0
    then show ?thesis by simp
  next
    case (Suc k')
    with that have "k' < length (visits it0)" by simp
    with visits_positions [of it0] obtain r where
      "elemStack ((hierarchicIncrement ^^ k') it0) = visits it0 ! k' # r" by blast
    then show ?thesis by (simp add: Suc it0 funpow_swap1)
  qed
  have tg: "target ((hierarchicIncrement ^^ k) it0)
            = (case elemStack ((hierarchicIncrement ^^ k) it0) of [] \<Rightarrow> None | tp # _ \<Rightarrow> Some tp)"
    if "k \<le> length (visits it0)" for k
    unfolding pw [of k] by (rule hierarchicIncrement_target) (rule ne [OF that])
  have pos: "target ((hierarchicIncrement ^^ k) it0) = Some (visits it0 ! k)"
    if k: "k < length (visits it0)" for k
  proof -
    from visits_positions [of it0] k obtain r where
      "elemStack ((hierarchicIncrement ^^ k) it0) = visits it0 ! k # r" by blast
    with tg [of k] k show ?thesis by simp
  qed
  have fin: "elemStack ((hierarchicIncrement ^^ length (visits it0)) it0) = []"
    using visits_positions [of it0] by blast
  have fin': "target ((hierarchicIncrement ^^ length (visits it0)) it0) = None"
    using tg [of "length (visits it0)"] fin by simp
  from order ms pos fin fin' show ?thesis unfolding it0_def by blast
qed

theorem hierarchic_traversal_witness:
  "wellLevelled exampleElement
   \<and> visits (hierarchicStart 1 exampleElement)
       = [ElementImp 1 [], ElementImp 1 [ElementImp 2 [], ElementImp 2 []]]
   \<and> filter (\<lambda>d. elementLevel d \<le> 1) (descendants exampleElement)
       = [ElementImp 1 [ElementImp 2 [], ElementImp 2 []], ElementImp 1 []]
   \<and> target ((hierarchicIncrement ^^ 2) (hierarchicStart 1 exampleElement)) = None"
proof -
  have wl: "wellLevelled exampleElement"
    by (simp add: exampleElement_def)
  have vo: "visitOrder 1 exampleElement
            = [ElementImp 1 [], ElementImp 1 [ElementImp 2 [], ElementImp 2 []]]"
    by (simp add: exampleElement_def)
  have ds: "filter (\<lambda>d. elementLevel d \<le> 1) (descendants exampleElement)
       = [ElementImp 1 [ElementImp 2 [], ElementImp 2 []], ElementImp 1 []]"
    by (simp add: exampleElement_def)
  note r = hierarchic_traversal [OF wl, of 1]
  from r vo have v: "visits (hierarchicStart 1 exampleElement)
       = [ElementImp 1 [], ElementImp 1 [ElementImp 2 [], ElementImp 2 []]]" by simp
  from r have "target ((hierarchicIncrement ^^ length (visits (hierarchicStart 1 exampleElement)))
                 (hierarchicStart 1 exampleElement)) = None" by blast
  then have "target ((hierarchicIncrement ^^ 2) (hierarchicStart 1 exampleElement)) = None"
    by (simp only: v) (simp add: numeral_2_eq_2)
  with wl v ds show ?thesis by blast
qed

section \<open>Properties of the index sets\<close>

text \<open>
  Claim C10.  \<^verbatim>\<open>size(codim)\<close> of the leaf index set is \<open>0\<close> for a negative codimension and
  for one above the grid dimension, and the stored count \<^verbatim>\<open>size_[dim - codim]\<close> otherwise;
  \<^verbatim>\<open>size(type)\<close> is \<open>0\<close> for a geometry type of a dimension above the grid dimension and
  the stored count \<^verbatim>\<open>size_[type.dim()]\<close> otherwise.  Neither signals an error.
\<close>

theorem leaf_size_out_of_range:
  "(codim < 0 \<or> int dim < codim \<longrightarrow> leafSize s codim = 0)
   \<and> (0 \<le> codim \<and> codim \<le> int dim \<longrightarrow> leafSize s codim = sizes s ! nat (int dim - codim))
   \<and> (dim < typeDim t \<longrightarrow> leafSizeOfType s t = 0)
   \<and> (typeDim t \<le> dim \<longrightarrow> leafSizeOfType s t = sizes s ! typeDim t)"
  by (auto simp: leafSize_def leafSizeOfType_def)

theorem leaf_size_out_of_range_witness:
  "leafSize \<lparr>sizes = [4, 5, 2], leafTypes = []\<rparr> (- 1) = 0
   \<and> leafSize \<lparr>sizes = [4, 5, 2], leafTypes = []\<rparr> 3 = 0
   \<and> leafSize \<lparr>sizes = [4, 5, 2], leafTypes = []\<rparr> 2 = 4
   \<and> leafSize \<lparr>sizes = [4, 5, 2], leafTypes = []\<rparr> 0 = 2
   \<and> leafSizeOfType \<lparr>sizes = [4, 5, 2], leafTypes = []\<rparr> \<lparr>basicType = cube, typeDim = 3\<rparr> = 0
   \<and> leafSizeOfType \<lparr>sizes = [4, 5, 2], leafTypes = []\<rparr> \<lparr>basicType = simplex, typeDim = 1\<rparr> = 5"
proof -
  let ?s = "\<lparr>sizes = [4, 5, 2], leafTypes = []\<rparr>"
  have a: "leafSize ?s (- 1) = 0"
    using leaf_size_out_of_range [of "- 1" ?s] by simp
  have b: "leafSize ?s 3 = 0"
    using leaf_size_out_of_range [of 3 ?s] by (simp add: dim_def)
  have c: "leafSize ?s 2 = 4"
    using leaf_size_out_of_range [of 2 ?s] by (simp add: dim_def)
  have d: "leafSize ?s 0 = 2"
    using leaf_size_out_of_range [of 0 ?s] by (simp add: dim_def)
  have e: "leafSizeOfType ?s \<lparr>basicType = cube, typeDim = 3\<rparr> = 0"
    using leaf_size_out_of_range [of 0 ?s "\<lparr>basicType = cube, typeDim = 3\<rparr>"] by (simp add: dim_def)
  have f: "leafSizeOfType ?s \<lparr>basicType = simplex, typeDim = 1\<rparr> = 5"
    using leaf_size_out_of_range [of 0 ?s "\<lparr>basicType = simplex, typeDim = 1\<rparr>"] by (simp add: dim_def)
  from a b c d e f show ?thesis by blast
qed

subsection \<open>The loop that assigns indices\<close>

lemma assignIndices_Nil [simp]: "assignIndices put [] st = st"
  by (simp add: assignIndices_def)

lemma assignIndices_Cons [simp]:
  "assignIndices put (a # as) (h, n) = assignIndices put as (h(a := put (nat n) (h a)), n + 1)"
  by (simp add: assignIndices_def)

lemma assignIndices_append:
  "assignIndices put (as @ bs) st = assignIndices put bs (assignIndices put as st)"
  by (simp add: assignIndices_def)

lemma assignIndices_count: "snd (assignIndices put as (h, n)) = n + int (length as)"
  by (induction as arbitrary: h n) simp_all

lemma assignIndices_outside:
  "x \<notin> set as \<Longrightarrow> fst (assignIndices put as (h, n)) x = h x"
  by (induction as arbitrary: h n) simp_all

lemma assignIndices_frame:
  assumes "\<And>i v. proj (put i v) = proj v"
  shows "proj (fst (assignIndices put as (h, n)) x) = proj (h x)"
  using assms by (induction as arbitrary: h n) simp_all

lemma assignIndices_nth:
  "distinct as \<Longrightarrow> k < length as \<Longrightarrow>
   fst (assignIndices put as (h, n)) (as ! k) = put (nat (n + int k)) (h (as ! k))"
proof (induction as arbitrary: h n k)
  case Nil
  then show ?case by simp
next
  case (Cons a as)
  show ?case
  proof (cases k)
    case 0
    with Cons.prems show ?thesis by (simp add: assignIndices_outside)
  next
    case (Suc k')
    with Cons.prems have "as ! k' \<noteq> a" by auto
    with Cons Suc show ?thesis by (simp add: add.assoc)
  qed
qed

lemma assignIndices_cong:
  assumes "\<And>x. x \<notin> set as \<Longrightarrow> h x = h' x"
      and "\<And>x i. put i (h x) = put i (h' x)"
  shows "assignIndices put as (h, n) = assignIndices put as (h', n)"
  using assms
proof (induction as arbitrary: h h' n)
  case Nil
  then have "h = h'" by auto
  then show ?case by simp
next
  case (Cons a as)
  have "assignIndices put as (h(a := put (nat n) (h a)), n + 1)
        = assignIndices put as (h'(a := put (nat n) (h' a)), n + 1)"
  proof (rule Cons.IH)
    fix x assume "x \<notin> set as"
    then show "(h(a := put (nat n) (h a))) x = (h'(a := put (nat n) (h' a))) x"
      using Cons.prems by (cases "x = a") simp_all
  next
    fix x i
    show "put i ((h(a := put (nat n) (h a))) x) = put i ((h'(a := put (nat n) (h' a))) x)"
      using Cons.prems(2) by simp
  qed
  then show ?case by simp
qed

lemma assignIndices_put:
  assumes "\<And>i j v. put i (put j v) = put i v"
  shows "put i (fst (assignIndices put as (h, n)) x) = put i (h x)"
  using assms by (induction as arbitrary: h n) simp_all

lemma assignIndices_idem:
  assumes "\<And>i j v. put i (put j v) = put i v"
  shows "assignIndices put as (fst (assignIndices put as (h, n)), n) = assignIndices put as (h, n)"
  by (rule assignIndices_cong) (simp_all add: assignIndices_outside assignIndices_put assms)

lemma putLevelIndex_twice [simp]: "putLevelIndex i (putLevelIndex j v) = putLevelIndex i v"
  by (simp add: putLevelIndex_def)

lemma putLeafIndex_twice [simp]: "putLeafIndex i (putLeafIndex j v) = putLeafIndex i v"
  by (simp add: putLeafIndex_def)

subsection \<open>The level pass and the passes over edges and vertices\<close>

lemma list_update_two_twice:
  "xs[0 := a, Suc 0 := b, 0 := a, Suc 0 := b] = xs[0 := a, Suc 0 := b]"
proof (cases xs)
  case Nil
  then show ?thesis by simp
next
  case (Cons x ys)
  then show ?thesis by (cases ys) simp_all
qed

lemma levelUpdate_idem:
  assumes "levelUpdate g lv s = Inr (g1, s1)"
  shows "levelUpdate g1 lv s1 = Inr (g1, s1)"
proof -
  from assms have lv: "lv < length (entityImps g)"
    by (auto simp: levelUpdate_def split: if_splits)
  obtain eh ne where e: "assignIndices putLevelIndex (elementList (entityImps g ! lv)) (elementAt g, 0) = (eh, ne)"
    by (cases "assignIndices putLevelIndex (elementList (entityImps g ! lv)) (elementAt g, 0)")
  obtain vh nv where v: "assignIndices putLevelIndex (vertexList (entityImps g ! lv)) (vertexAt g, 0) = (vh, nv)"
    by (cases "assignIndices putLevelIndex (vertexList (entityImps g ! lv)) (vertexAt g, 0)")
  from assms lv e v have g1: "g1 = g\<lparr>elementAt := eh, vertexAt := vh\<rparr>"
    and s1: "s1 = s\<lparr>indexLevel := lv, numElements := ne, numVertices := nv,
                   levelTypes := (levelTypes s)
                     [0 := typesPresent ne \<lparr>basicType = simplex, typeDim = 1\<rparr>,
                      1 := typesPresent nv \<lparr>basicType = simplex, typeDim = 0\<rparr>]\<rparr>"
    by (auto simp: levelUpdate_def Let_def)
  have e': "assignIndices putLevelIndex (elementList (entityImps g ! lv)) (eh, 0) = (eh, ne)"
    using assignIndices_idem [of putLevelIndex "elementList (entityImps g ! lv)" "elementAt g" 0] e
    by simp
  have v': "assignIndices putLevelIndex (vertexList (entityImps g ! lv)) (vh, 0) = (vh, nv)"
    using assignIndices_idem [of putLevelIndex "vertexList (entityImps g ! lv)" "vertexAt g" 0] v
    by simp
  show ?thesis
    using lv e' v' by (simp add: levelUpdate_def g1 s1 Let_def list_update_two_twice)
qed

(* edges *)

lemma fold_setEdgeLeafIndex_Inl [simp]: "fold setEdgeLeafIndex as (Inl err) = Inl err"
  by (induction as) simp_all

lemma edgeIsLeaf_putLeafIndex [simp]: "edgeIsLeaf (putLeafIndex i e) = edgeIsLeaf e"
  by (simp add: edgeIsLeaf_def putLeafIndex_def)

lemma fold_setEdgeLeafIndex_leaves:
  "(\<forall>a \<in> set as. edgeIsLeaf (h a)) \<Longrightarrow>
   fold setEdgeLeafIndex as (Inr (h, n)) = Inr (assignIndices putLeafIndex as (h, n))"
  by (induction as arbitrary: h n) simp_all

lemma fold_setEdgeLeafIndex_fails:
  "(\<exists>a \<in> set as. \<not> edgeIsLeaf (h a)) \<Longrightarrow>
   fold setEdgeLeafIndex as (Inr (h, n)) = Inl AssertionFailed"
proof (induction as arbitrary: h n)
  case Nil
  then show ?case by simp
next
  case (Cons a as)
  show ?case
  proof (cases "edgeIsLeaf (h a)")
    case False
    then show ?thesis by simp
  next
    case True
    with Cons.prems have "\<exists>b \<in> set as. \<not> edgeIsLeaf ((h(a := putLeafIndex (nat n) (h a))) b)"
      by auto
    then show ?thesis using True Cons.IH by simp
  qed
qed

lemma fold_levels:
  "fold (\<lambda>i. fold f (xs i)) ls = fold f (concat (map xs ls))"
proof
  fix st show "fold (\<lambda>i. fold f (xs i)) ls st = fold f (concat (map xs ls)) st"
    by (induction ls arbitrary: st) simp_all
qed

lemma sameShape_refl [simp]: "sameShape v v"
  by (simp add: sameShape_def)

lemma sameShape_son: "sameShape v v' \<Longrightarrow> son v = son v'"
  by (cases v, cases v') (simp add: sameShape_def)

lemma sameShape_update: "sameShape v v' \<Longrightarrow> v\<lparr>leafIndex := x\<rparr> = v'\<lparr>leafIndex := x\<rparr>"
  by (cases v, cases v') (simp add: sameShape_def)

lemma sameShape_updated [simp]: "sameShape (v\<lparr>leafIndex := x\<rparr>) v' = sameShape v v'"
  by (simp add: sameShape_def)

lemma setVertexLeafIndex_shape:
  "sameShape (fst (setVertexLeafIndex a (h, n)) x) (h x)"
  by (simp add: putLeafIndex_def split: option.splits)

lemma setVertexLeafIndex_outside:
  "x \<noteq> a \<Longrightarrow> fst (setVertexLeafIndex a (h, n)) x = h x"
  by (simp split: option.splits)

lemma vertexPass_shape:
  "sameShape (fst (fold setVertexLeafIndex vs (h, n)) x) (h x)"
proof (induction vs arbitrary: h n)
  case Nil
  show ?case by simp
next
  case (Cons a vs)
  obtain h1 n1 where st: "setVertexLeafIndex a (h, n) = (h1, n1)"
    by (cases "setVertexLeafIndex a (h, n)")
  have "sameShape (h1 x) (h x)"
    using setVertexLeafIndex_shape [of a h n x] st by simp
  moreover have "sameShape (fst (fold setVertexLeafIndex vs (h1, n1)) x) (h1 x)"
    by (rule Cons.IH)
  ultimately show ?case
    using st by (simp add: sameShape_def)
qed

lemma vertexPass_outside:
  "x \<notin> set vs \<Longrightarrow> fst (fold setVertexLeafIndex vs (h, n)) x = h x"
proof (induction vs arbitrary: h n)
  case Nil
  show ?case by simp
next
  case (Cons a vs)
  obtain h1 n1 where st: "setVertexLeafIndex a (h, n) = (h1, n1)"
    by (cases "setVertexLeafIndex a (h, n)")
  from Cons.prems have "h1 x = h x"
    using setVertexLeafIndex_outside [of x a h n] st by simp
  with Cons st show ?case by simp
qed

lemma vertexPass_lockstep:
  assumes "\<And>x. x \<in> D \<Longrightarrow> h x = h' x"
      and "\<And>x. sameShape (h x) (h' x)"
      and "\<And>x. x \<notin> D \<Longrightarrow> x \<in> set vs"
      and "\<And>k s. k < length vs \<Longrightarrow> son (h (vs ! k)) = Some s \<Longrightarrow> s \<in> D \<or> s \<in> set (take k vs)"
  shows "fold setVertexLeafIndex vs (h, n) = fold setVertexLeafIndex vs (h', n)"
  using assms
proof (induction vs arbitrary: h h' n D)
  case Nil
  then have "h = h'" by auto
  then show ?case by simp
next
  case (Cons a vs)
  obtain h1 n1 where st: "setVertexLeafIndex a (h, n) = (h1, n1)"
    by (cases "setVertexLeafIndex a (h, n)")
  obtain h1' n1' where st': "setVertexLeafIndex a (h', n) = (h1', n1')"
    by (cases "setVertexLeafIndex a (h', n)")
  have sons: "son (h a) = son (h' a)"
    using Cons.prems(2) by (rule sameShape_son)
  have n1: "n1' = n1"
    using st st' sons by (auto split: option.splits)
  have ata: "h1 a = h1' a"
  proof (cases "son (h a)")
    case None
    with st st' sons show ?thesis
      using sameShape_update [OF Cons.prems(2) [of a]] by (auto simp: putLeafIndex_def)
  next
    case (Some s)
    with Cons.prems(4) [of 0 s] have "s \<in> D" by simp
    then have "h s = h' s" by (rule Cons.prems(1))
    with Some st st' sons show ?thesis
      using sameShape_update [OF Cons.prems(2) [of a]] by auto
  qed
  have other: "h1 x = h x" "h1' x = h' x" if "x \<noteq> a" for x
    using that setVertexLeafIndex_outside [of x a h n] setVertexLeafIndex_outside [of x a h' n] st st'
    by simp_all
  have shape1: "sameShape (h1 x) (h x)" "sameShape (h1' x) (h' x)" for x
    using setVertexLeafIndex_shape [of a h n x] setVertexLeafIndex_shape [of a h' n x] st st'
    by simp_all
  have "fold setVertexLeafIndex vs (h1, n1) = fold setVertexLeafIndex vs (h1', n1)"
  proof (rule Cons.IH [where D = "insert a D"])
    fix x assume "x \<in> insert a D"
    then show "h1 x = h1' x"
      using ata other Cons.prems(1) by (cases "x = a") auto
  next
    fix x
    show "sameShape (h1 x) (h1' x)"
      using shape1 [of x] Cons.prems(2) [of x] by (simp add: sameShape_def)
  next
    fix x assume "x \<notin> insert a D"
    with Cons.prems(3) [of x] show "x \<in> set vs" by auto
  next
    fix k s assume k: "k < length vs" and s: "son (h1 (vs ! k)) = Some s"
    have "son (h1 (vs ! k)) = son (h (vs ! k))"
      using shape1(1) by (rule sameShape_son)
    with s have "son (h ((a # vs) ! Suc k)) = Some s" by simp
    with Cons.prems(4) [of "Suc k" s] k have "s \<in> D \<or> s \<in> set (take (Suc k) (a # vs))"
      by simp
    then show "s \<in> insert a D \<or> s \<in> set (take k vs)" by auto
  qed
  with st st' n1 show ?case by simp
qed

lemma vertexPass_idem:
  assumes "\<And>k s. k < length vs \<Longrightarrow> son (h (vs ! k)) = Some s \<Longrightarrow> s \<notin> set vs \<or> s \<in> set (take k vs)"
  shows "fold setVertexLeafIndex vs (fst (fold setVertexLeafIndex vs (h, n)), n)
         = fold setVertexLeafIndex vs (h, n)"
proof (rule vertexPass_lockstep [where D = "- set vs"])
  fix x assume "x \<in> - set vs"
  then show "fst (fold setVertexLeafIndex vs (h, n)) x = h x"
    by (simp add: vertexPass_outside)
next
  fix x show "sameShape (fst (fold setVertexLeafIndex vs (h, n)) x) (h x)"
    by (rule vertexPass_shape)
next
  fix x assume "x \<notin> - set vs" then show "x \<in> set vs" by simp
next
  fix k s assume k: "k < length vs"
    and s: "son (fst (fold setVertexLeafIndex vs (h, n)) (vs ! k)) = Some s"
  have "son (fst (fold setVertexLeafIndex vs (h, n)) (vs ! k)) = son (h (vs ! k))"
    using vertexPass_shape by (rule sameShape_son)
  with s assms [of k s] k show "s \<in> - set vs \<or> s \<in> set (take k vs)" by simp
qed

lemma levelsDownward_eq: "levelsDownward g = rev [0..<length (entityImps g)]"
  by (simp add: levelsDownward_def maxLevel_def)

lemma concat_position:
  "k < length (concat (map f ls)) \<Longrightarrow>
   \<exists>pre i post. ls = pre @ i # post \<and> concat (map f ls) ! k \<in> set (f i)
      \<and> set (concat (map f pre)) \<subseteq> set (take k (concat (map f ls)))"
proof (induction ls arbitrary: k)
  case Nil
  then show ?case by simp
next
  case (Cons l ls)
  show ?case
  proof (cases "k < length (f l)")
    case True
    then have "concat (map f (l # ls)) ! k \<in> set (f l)"
      by (simp add: nth_append)
    then show ?thesis by (intro exI [of _ "[]"] exI [of _ l] exI [of _ ls]) simp
  next
    case False
    define k' where "k' = k - length (f l)"
    from False Cons.prems have k': "k' < length (concat (map f ls))" and k: "k = length (f l) + k'"
      by (simp_all add: k'_def)
    from Cons.IH [OF k'] obtain pre i post where
      ls: "ls = pre @ i # post" and el: "concat (map f ls) ! k' \<in> set (f i)"
      and sub: "set (concat (map f pre)) \<subseteq> set (take k' (concat (map f ls)))" by blast
    have "concat (map f (l # ls)) ! k \<in> set (f i)"
      using el k by (simp add: nth_append)
    moreover have "set (concat (map f (l # pre))) \<subseteq> set (take k (concat (map f (l # ls))))"
      using sub k by auto
    ultimately show ?thesis
      using ls by (intro exI [of _ "l # pre"] exI [of _ i] exI [of _ post]) simp
  qed
qed

lemma rev_upt_split:
  assumes "rev [0..<L] = pre @ i # post" and "i < j" and "j < L"
  shows "j \<in> set pre"
proof -
  from assms(1) have "rev (rev [0..<L]) = rev (pre @ i # post)" by simp
  then have eq: "[0..<L] = rev post @ i # rev pre" by simp
  have "sorted [0..<L]" by simp
  then have "sorted (rev post @ i # rev pre)" by (simp only: eq)
  then have below: "\<forall>x \<in> set post. x \<le> i" by (simp add: sorted_append)
  from assms(3) have "j \<in> set [0..<L]" by simp
  then have "j \<in> set (rev post @ i # rev pre)" by (simp only: eq)
  with below assms(2) show ?thesis by auto
qed

lemma sonsOnDeeperLevels_visited_first:
  assumes wf: "sonsOnDeeperLevels g"
      and vs: "vs = concat (map (\<lambda>i. vertexList (entityImps g ! i)) (levelsDownward g))"
      and k: "k < length vs"
      and s: "son (vertexAt g (vs ! k)) = Some s"
  shows "s \<in> set (take k vs)"
proof -
  let ?f = "\<lambda>i. vertexList (entityImps g ! i)"
  let ?L = "length (entityImps g)"
  from k vs concat_position [of k ?f "levelsDownward g"] obtain pre i post where
    ls: "levelsDownward g = pre @ i # post" and el: "vs ! k \<in> set (?f i)"
    and sub: "set (concat (map ?f pre)) \<subseteq> set (take k vs)" by auto
  from ls have split: "rev [0..<?L] = pre @ i # post" by (simp add: levelsDownward_eq)
  from split have "i \<in> set (rev [0..<?L])" by simp
  then have i: "i < ?L" by simp
  from wf i el s obtain j where j: "j \<in> set [i + 1..<?L]" and sj: "s \<in> set (?f j)"
    by (fastforce simp: sonsOnDeeperLevels_def list_all_iff list_ex_iff)
  from j have "i < j" "j < ?L" by simp_all
  with split have "j \<in> set pre" by (rule rev_upt_split)
  with sj have "s \<in> set (concat (map ?f pre))" by auto
  with sub show ?thesis by blast
qed

lemma leafUpdate_unfold:
  "leafUpdate g s =
     (let (eh, n2) = assignIndices putLeafIndex (leafElements g) (elementAt g, 0)
      in case fold setEdgeLeafIndex (edgeVisits g) (Inr (edgeAt g, 0)) of
           Inl err \<Rightarrow> Inl err
         | Inr (dh, n1) \<Rightarrow>
             (let (vh, n0) = fold setVertexLeafIndex (vertexVisits g) (vertexAt g, 0);
                  size = [n0, n1, n2]
              in Inr (g\<lparr>elementAt := eh, edgeAt := dh, vertexAt := vh\<rparr>,
                      s\<lparr>sizes := size,
                        leafTypes := map (\<lambda>i. typesPresent (size ! (dim - i))
                                                \<lparr>basicType = simplex, typeDim = dim - i\<rparr>)
                                       [0..<dim + 1]\<rparr>)))"
  unfolding leafUpdate_def edgeVisits_def vertexVisits_def fold_levels ..

lemma edgePass_cases:
  "fold setEdgeLeafIndex es (Inr (h, n))
   = (if \<forall>a \<in> set es. edgeIsLeaf (h a) then Inr (assignIndices putLeafIndex es (h, n))
      else Inl AssertionFailed)"
  using fold_setEdgeLeafIndex_leaves [of es h n] fold_setEdgeLeafIndex_fails [of es h n]
  by auto

lemma leafUpdate_idem:
  assumes wf: "sonsOnDeeperLevels g"
      and up: "leafUpdate g s = Inr (g1, s1)"
  shows "leafUpdate g1 s1 = Inr (g1, s1)"
proof -
  obtain eh n2 where e: "assignIndices putLeafIndex (leafElements g) (elementAt g, 0) = (eh, n2)"
    by (cases "assignIndices putLeafIndex (leafElements g) (elementAt g, 0)")
  obtain vh n0 where v: "fold setVertexLeafIndex (vertexVisits g) (vertexAt g, 0) = (vh, n0)"
    by (cases "fold setVertexLeafIndex (vertexVisits g) (vertexAt g, 0)")
  from up have leaves: "\<forall>a \<in> set (edgeVisits g). edgeIsLeaf (edgeAt g a)"
    by (auto simp: leafUpdate_unfold edgePass_cases Let_def split: prod.splits if_splits)
  obtain dh n1 where d: "assignIndices putLeafIndex (edgeVisits g) (edgeAt g, 0) = (dh, n1)"
    by (cases "assignIndices putLeafIndex (edgeVisits g) (edgeAt g, 0)")
  let ?size = "[n0, n1, n2]"
  from up e v d leaves have g1: "g1 = g\<lparr>elementAt := eh, edgeAt := dh, vertexAt := vh\<rparr>"
    and s1: "s1 = s\<lparr>sizes := ?size,
                    leafTypes := map (\<lambda>i. typesPresent (?size ! (dim - i))
                                        \<lparr>basicType = simplex, typeDim = dim - i\<rparr>) [0..<dim + 1]\<rparr>"
    by (auto simp: leafUpdate_unfold edgePass_cases Let_def)
  have eh: "eh = fst (assignIndices putLeafIndex (leafElements g) (elementAt g, 0))"
    and dh: "dh = fst (assignIndices putLeafIndex (edgeVisits g) (edgeAt g, 0))"
    and vh: "vh = fst (fold setVertexLeafIndex (vertexVisits g) (vertexAt g, 0))"
    using e d v by simp_all
  have sons: "elementSonList (eh a) = elementSonList (elementAt g a)" for a
    unfolding eh by (rule assignIndices_frame) (simp add: putLeafIndex_def)
  let ?g1 = "g\<lparr>elementAt := eh, edgeAt := dh, vertexAt := vh\<rparr>"
  have le: "leafElements ?g1 = leafElements g"
    by (simp add: leafElements_def elementIsLeaf'_def sons)
  have ev: "edgeVisits ?g1 = edgeVisits g" and vv: "vertexVisits ?g1 = vertexVisits g"
    by (simp_all add: edgeVisits_def vertexVisits_def levelsDownward_eq)
  have e': "assignIndices putLeafIndex (leafElements g) (eh, 0) = (eh, n2)"
    using assignIndices_idem [of putLeafIndex "leafElements g" "elementAt g" 0] e by simp
  have d': "assignIndices putLeafIndex (edgeVisits g) (dh, 0) = (dh, n1)"
    using assignIndices_idem [of putLeafIndex "edgeVisits g" "edgeAt g" 0] d by simp
  have leaves': "\<forall>a \<in> set (edgeVisits g). edgeIsLeaf (dh a)"
  proof
    fix a assume a: "a \<in> set (edgeVisits g)"
    have "edgeIsLeaf (dh a) = edgeIsLeaf (edgeAt g a)"
      unfolding dh by (rule assignIndices_frame) simp
    with leaves a show "edgeIsLeaf (dh a)" by simp
  qed
  have v': "fold setVertexLeafIndex (vertexVisits g) (vh, 0) = (vh, n0)"
  proof -
    have "fold setVertexLeafIndex (vertexVisits g)
            (fst (fold setVertexLeafIndex (vertexVisits g) (vertexAt g, 0)), 0)
          = fold setVertexLeafIndex (vertexVisits g) (vertexAt g, 0)"
    proof (rule vertexPass_idem)
      fix k s assume "k < length (vertexVisits g)"
        and "son (vertexAt g (vertexVisits g ! k)) = Some s"
      with sonsOnDeeperLevels_visited_first [OF wf vertexVisits_def]
      show "s \<notin> set (vertexVisits g) \<or> s \<in> set (take k (vertexVisits g))" by blast
    qed
    with v show ?thesis by simp
  qed
  show ?thesis
    using e' d' v' leaves'
    by (simp add: leafUpdate_unfold edgePass_cases le ev vv g1 s1 Let_def)
qed


section \<open>The index passes: assertion on edges, idempotence\<close>

lemmas grid_eval = refinedGrid_def refinedEdgeGrid_def newFoamGrid_def leafUpdate_def levelUpdate_def
  assignIndices_def putLeafIndex_def putLevelIndex_def leafElements_def elementIsLeaf'_def
  edgeIsLeaf_def levelsDownward_def maxLevel_def typesPresent_def dim_def Let_def
  edgeVisits_def vertexVisits_def sonsOnDeeperLevels_def

text \<open>
  Claim C4 as stated fails on a grid with a refined edge.  The pass visits the two edges
  of level \<open>1\<close> and then the edge \<open>0\<close> of level \<open>0\<close>, which is not a leaf; there the
  assertion fails and the pass ends without a result, where the claim has it skip the
  edge and go on.
\<close>

theorem leaf_pass_refined_edge_counterexample:
  "edgeVisits refinedEdgeGrid = [1, 2, 0]
   \<and> \<not> edgeIsLeaf (edgeAt refinedEdgeGrid 0)
   \<and> leafUpdate refinedEdgeGrid (leafIndexSet refinedEdgeGrid) = Inl AssertionFailed"
  by (simp add: grid_eval upt_rec numeral_nat)

text \<open>
  Claim C4, amended.  The leaf pass visits the edges level by level from the deepest level
  down to level \<open>0\<close> (\<open>edgeVisits\<close>) and asserts of each that it is a leaf.  If all edges
  are leaves, the pass succeeds, the number of leaf edges is the number of edges, and
  the \<open>k\<close>-th visited edge holds the leaf index \<open>k\<close>.  If some edge is not a leaf, the
  pass fails with the assertion; it does not skip that edge.
\<close>

theorem leaf_edge_indices:
  "((\<forall>a \<in> set (edgeVisits g). edgeIsLeaf (edgeAt g a)) \<and> distinct (edgeVisits g)
     \<longrightarrow> (\<exists>g' t'. leafUpdate g t = Inr (g', t')
            \<and> sizes t' ! 1 = int (length (edgeVisits g))
            \<and> (\<forall>k < length (edgeVisits g). leafIndex (edgeAt g' (edgeVisits g ! k)) = Some k)))
   \<and> ((\<exists>a \<in> set (edgeVisits g). \<not> edgeIsLeaf (edgeAt g a))
     \<longrightarrow> leafUpdate g t = Inl AssertionFailed)"
proof (intro conjI impI)
  assume "\<exists>a \<in> set (edgeVisits g). \<not> edgeIsLeaf (edgeAt g a)"
  then show "leafUpdate g t = Inl AssertionFailed"
    by (auto simp: leafUpdate_unfold edgePass_cases Let_def split: prod.splits)
next
  assume a: "(\<forall>a \<in> set (edgeVisits g). edgeIsLeaf (edgeAt g a)) \<and> distinct (edgeVisits g)"
  then have leaves: "\<forall>a \<in> set (edgeVisits g). edgeIsLeaf (edgeAt g a)"
    and dist: "distinct (edgeVisits g)" by simp_all
  obtain eh n2 where e: "assignIndices putLeafIndex (leafElements g) (elementAt g, 0) = (eh, n2)"
    by (cases "assignIndices putLeafIndex (leafElements g) (elementAt g, 0)")
  obtain vh n0 where v: "fold setVertexLeafIndex (vertexVisits g) (vertexAt g, 0) = (vh, n0)"
    by (cases "fold setVertexLeafIndex (vertexVisits g) (vertexAt g, 0)")
  obtain dh n1 where d: "assignIndices putLeafIndex (edgeVisits g) (edgeAt g, 0) = (dh, n1)"
    by (cases "assignIndices putLeafIndex (edgeVisits g) (edgeAt g, 0)")
  have n1: "n1 = int (length (edgeVisits g))"
    using assignIndices_count [of putLeafIndex "edgeVisits g" "edgeAt g" 0] d by simp
  have idx: "leafIndex (dh (edgeVisits g ! k)) = Some k" if "k < length (edgeVisits g)" for k
    using assignIndices_nth [OF dist that, of putLeafIndex "edgeAt g" 0] d
    by (simp add: putLeafIndex_def)
  show "\<exists>g' t'. leafUpdate g t = Inr (g', t')
          \<and> sizes t' ! 1 = int (length (edgeVisits g))
          \<and> (\<forall>k < length (edgeVisits g). leafIndex (edgeAt g' (edgeVisits g ! k)) = Some k)"
    using leaves e v d n1 idx
    by (simp add: leafUpdate_unfold edgePass_cases Let_def)
qed

theorem leaf_edge_indices_witness:
  "edgeVisits refinedGrid = [0, 1]
   \<and> (\<exists>g' t'. leafUpdate refinedGrid (leafIndexSet refinedGrid) = Inr (g', t')
        \<and> sizes t' ! 1 = 2
        \<and> leafIndex (edgeAt g' 0) = Some 0 \<and> leafIndex (edgeAt g' 1) = Some 1)
   \<and> (\<exists>a \<in> set (edgeVisits refinedEdgeGrid). \<not> edgeIsLeaf (edgeAt refinedEdgeGrid a))
   \<and> leafUpdate refinedEdgeGrid (leafIndexSet refinedEdgeGrid) = Inl AssertionFailed"
proof -
  have ev: "edgeVisits refinedGrid = [0, 1]"
    by (simp add: grid_eval upt_rec numeral_nat)
  have a: "(\<forall>a \<in> set (edgeVisits refinedGrid). edgeIsLeaf (edgeAt refinedGrid a))
           \<and> distinct (edgeVisits refinedGrid)"
    unfolding ev by (simp add: grid_eval)
  have b: "\<exists>a \<in> set (edgeVisits refinedEdgeGrid). \<not> edgeIsLeaf (edgeAt refinedEdgeGrid a)"
    by (simp add: grid_eval upt_rec numeral_nat)
  from leaf_edge_indices [of refinedGrid "leafIndexSet refinedGrid", THEN conjunct1, rule_format, OF a]
  obtain g' t' where r: "leafUpdate refinedGrid (leafIndexSet refinedGrid) = Inr (g', t')"
    "sizes t' ! 1 = int (length (edgeVisits refinedGrid))"
    "\<forall>k < length (edgeVisits refinedGrid). leafIndex (edgeAt g' (edgeVisits refinedGrid ! k)) = Some k"
    by blast
  have i: "leafIndex (edgeAt g' 0) = Some 0" "leafIndex (edgeAt g' 1) = Some 1"
    using r(3) [rule_format, of 0] r(3) [rule_format, of 1] by (simp_all add: ev)
  from r(2) have s: "sizes t' ! 1 = 2" unfolding ev by simp
  from leaf_edge_indices [of refinedEdgeGrid "leafIndexSet refinedEdgeGrid", THEN conjunct2, rule_format, OF b]
  have f: "leafUpdate refinedEdgeGrid (leafIndexSet refinedEdgeGrid) = Inl AssertionFailed" .
  from ev r(1) i s b f show ?thesis by blast
qed

text \<open>
  Claim C8.  A level pass that is run again on the grid and the index set it has produced
  gives the same grid and the same index set: the same \<^verbatim>\<open>levelIndex_\<close> and \<^verbatim>\<open>leafIndex_\<close> of
  every entity, the same counts and the same geometry types.  The same holds for the
  leaf pass whenever the son of every vertex lies on a deeper level than the vertex.
\<close>

theorem index_passes_idempotent:
  "(levelUpdate g lv s = Inr (g1, s1) \<longrightarrow> levelUpdate g1 lv s1 = Inr (g1, s1))
   \<and> (sonsOnDeeperLevels g \<and> leafUpdate g t = Inr (g2, t2) \<longrightarrow> leafUpdate g2 t2 = Inr (g2, t2))"
  using levelUpdate_idem [of g lv s g1 s1] leafUpdate_idem [of g t g2 t2] by blast

theorem index_passes_idempotent_witness:
  "sonsOnDeeperLevels refinedGrid
   \<and> (\<exists>g1 s1. levelUpdate refinedGrid 1 emptyLevelIndexSet = Inr (g1, s1)
         \<and> numElements s1 = 2 \<and> numVertices s1 = 3
         \<and> map (\<lambda>a. levelIndex (vertexAt g1 a)) [2, 3, 4] = [Some 0, Some 1, Some 2]
         \<and> levelUpdate g1 1 s1 = Inr (g1, s1))
   \<and> (\<exists>g2 t2. leafUpdate refinedGrid (leafIndexSet refinedGrid) = Inr (g2, t2)
         \<and> sizes t2 = [3, 2, 2]
         \<and> map (\<lambda>a. leafIndex (vertexAt g2 a)) [0, 1, 2, 3, 4]
             = [Some 0, Some 1, Some 0, Some 1, Some 2]
         \<and> leafUpdate g2 t2 = Inr (g2, t2))"
proof -
  have wf: "sonsOnDeeperLevels refinedGrid"
    by (simp add: grid_eval upt_rec numeral_nat)
  obtain g1 s1 where l: "levelUpdate refinedGrid 1 emptyLevelIndexSet = Inr (g1, s1)"
    by (cases "levelUpdate refinedGrid 1 emptyLevelIndexSet")
       (auto simp: levelUpdate_def refinedGrid_def split: if_splits)
  have l': "levelUpdate refinedGrid 1 emptyLevelIndexSet = Inr (g1, s1)
            \<longrightarrow> numElements s1 = 2 \<and> numVertices s1 = 3
              \<and> map (\<lambda>a. levelIndex (vertexAt g1 a)) [2, 3, 4] = [Some 0, Some 1, Some 2]"
    by (auto simp: grid_eval emptyLevelIndexSet_def)
  obtain g2 t2 where u: "leafUpdate refinedGrid (leafIndexSet refinedGrid) = Inr (g2, t2)"
    by (cases "leafUpdate refinedGrid (leafIndexSet refinedGrid)")
       (auto simp: grid_eval upt_rec numeral_nat)
  have u': "leafUpdate refinedGrid (leafIndexSet refinedGrid) = Inr (g2, t2)
            \<longrightarrow> sizes t2 = [3, 2, 2]
              \<and> map (\<lambda>a. leafIndex (vertexAt g2 a)) [0, 1, 2, 3, 4]
                  = [Some 0, Some 1, Some 0, Some 1, Some 2]"
    by (auto simp: grid_eval upt_rec numeral_nat)
  note r = index_passes_idempotent [of refinedGrid 1 emptyLevelIndexSet g1 s1 "leafIndexSet refinedGrid" g2 t2]
  from r l have l2: "levelUpdate g1 1 s1 = Inr (g1, s1)" by blast
  from r wf u have u2: "leafUpdate g2 t2 = Inr (g2, t2)" by blast
  have a: "\<exists>g1 s1. levelUpdate refinedGrid 1 emptyLevelIndexSet = Inr (g1, s1)
         \<and> numElements s1 = 2 \<and> numVertices s1 = 3
         \<and> map (\<lambda>a. levelIndex (vertexAt g1 a)) [2, 3, 4] = [Some 0, Some 1, Some 2]
         \<and> levelUpdate g1 1 s1 = Inr (g1, s1)"
    using l l' l2 by (intro exI [of _ g1] exI [of _ s1]) simp
  have b: "\<exists>g2 t2. leafUpdate refinedGrid (leafIndexSet refinedGrid) = Inr (g2, t2)
         \<and> sizes t2 = [3, 2, 2]
         \<and> map (\<lambda>a. leafIndex (vertexAt g2 a)) [0, 1, 2, 3, 4]
             = [Some 0, Some 1, Some 0, Some 1, Some 2]
         \<and> leafUpdate g2 t2 = Inr (g2, t2)"
    using u u' u2 by (intro exI [of _ g2] exI [of _ t2]) simp
  from wf a b show ?thesis by (intro conjI)
qed


section \<open>The factory: the coarse mesh before \<open>createGrid\<close>\<close>

text \<open>
  Every run of \<^verbatim>\<open>insertVertex\<close> and \<^verbatim>\<open>insertElement\<close> that does not fail leaves the
  factory with a coarse mesh of the triangles it has inserted.
\<close>

lemma coarseMesh_new: "coarseMesh [] newGridFactory"
  by (simp add: coarseMesh_def newGridFactory_def newFoamGrid_def edgeIsLeaf_def)

lemma coarseMesh_insertVertex:
  assumes "coarseMesh ts f"
  shows "\<exists>f'. insertVertex f = Inr f' \<and> coarseMesh ts f'"
proof -
  from assms obtain g where g: "grid f = Some g" "length (entityImps g) = 1"
    "length (freeIdCounter g) = 3" "vertexArray f = [0..<freeIdCounter g ! 0]"
    "elementList (entityImps g ! 0) = [0..<length ts]" "freeIdCounter g ! 2 = length ts"
    "edgeList (entityImps g ! 0) = []" "freeIdCounter g ! 1 = 0"
    "\<forall>k < length ts. elementVertex (elementAt g k) = corners3 (ts ! k)
                           \<and> length (elementEdges (elementAt g k)) = 3"
    "\<forall>a. edgeIsLeaf (edgeAt g a)"
    unfolding coarseMesh_def by blast
  then show ?thesis
    by (simp add: insertVertex_def coarseMesh_def onCoarseLevel_def Let_def)
qed

lemma coarseMesh_insertElement:
  assumes "coarseMesh ts f" and "insertElement type vertices f = Inr f'"
  shows "coarseMesh (ts @ [vertices]) f'"
proof -
  from assms(1) obtain g where g: "grid f = Some g" "length (entityImps g) = 1"
    "length (freeIdCounter g) = 3" "vertexArray f = [0..<freeIdCounter g ! 0]"
    "elementList (entityImps g ! 0) = [0..<length ts]" "freeIdCounter g ! 2 = length ts"
    "edgeList (entityImps g ! 0) = []" "freeIdCounter g ! 1 = 0"
    "\<forall>k < length ts. elementVertex (elementAt g k) = corners3 (ts ! k)
                           \<and> length (elementEdges (elementAt g k)) = 3"
    "\<forall>a. edgeIsLeaf (edgeAt g a)"
    unfolding coarseMesh_def by blast
  from assms(2) g(1) have ok: "isTriangle type" "3 \<le> length vertices"
    "vertices ! 0 < length (vertexArray f)" "vertices ! 1 < length (vertexArray f)"
    "vertices ! 2 < length (vertexArray f)"
    by (auto simp: insertElement_def split: if_splits)
  from ok g(4) have va: "vertexArray f ! (vertices ! 0) = vertices ! 0"
    "vertexArray f ! (vertices ! 1) = vertices ! 1" "vertexArray f ! (vertices ! 2) = vertices ! 2"
    by simp_all
  from assms(2) g ok va show ?thesis
    by (auto simp: insertElement_def coarseMesh_def onCoarseLevel_def Let_def dim_def corners3_def
        nth_append)
qed

lemma coarseMesh_factoryCalls:
  "coarseMesh ts f \<Longrightarrow> factoryCalls cs f = Inr f' \<Longrightarrow> coarseMesh (ts @ insertedTriangles cs) f'"
proof (induction cs arbitrary: ts f)
  case Nil
  then show ?case by simp
next
  case (Cons c cs)
  show ?case
  proof (cases c)
    case InsertVertex
    from coarseMesh_insertVertex [OF Cons.prems(1)] obtain f1 where
      f1: "insertVertex f = Inr f1" "coarseMesh ts f1" by blast
    with Cons.prems(2) InsertVertex have "factoryCalls cs f1 = Inr f'" by simp
    from Cons.IH [OF f1(2) this] InsertVertex show ?thesis by simp
  next
    case (InsertElement type vertices)
    with Cons.prems(2) obtain f1 where f1: "insertElement type vertices f = Inr f1"
      and rest: "factoryCalls cs f1 = Inr f'"
      by (auto split: sum.splits)
    from coarseMesh_insertElement [OF Cons.prems(1) f1] have "coarseMesh (ts @ [vertices]) f1" .
    from Cons.IH [OF this rest] InsertElement show ?thesis by simp
  qed
qed

lemma factoryCalls_coarseMesh:
  assumes "factoryCalls cs newGridFactory = Inr f"
  shows "coarseMesh (insertedTriangles cs) f"
  using coarseMesh_factoryCalls [OF coarseMesh_new assms] by simp


section \<open>The factory: the edge map\<close>

text \<open>
  The invariant of the edge map is kept by an iteration that finds the edge under one
  of the two orders of its pair, and by one that inserts a new edge.
\<close>

lemma edgeTableD1:
  assumes "edgeTable m n ev ee qs" and "m p = Some x"
  shows "x < n \<and> ev x = p"
  using assms(1) [unfolded edgeTable_def, THEN conjunct1, rule_format, OF assms(2)] .

lemma edgeTableD2:
  assumes "edgeTable m n ev ee qs" and "x < n"
  shows "m (ev x) = Some x"
  using assms(1) [unfolded edgeTable_def, THEN conjunct2, THEN conjunct1, rule_format, OF assms(2)] .

lemma edgeTableD3:
  assumes "edgeTable m n ev ee qs" and "a \<noteq> b"
  shows "m (a, b) = None \<or> m (b, a) = None"
  using assms(1) [unfolded edgeTable_def, THEN conjunct2, THEN conjunct2, THEN conjunct1,
      rule_format, OF assms(2)] .

lemma edgeTableD4:
  assumes "edgeTable m n ev ee qs" and "x < n"
  shows "ee x = map fst (filter (\<lambda>q. samePair (snd q) (ev x)) qs)"
  using assms(1) [unfolded edgeTable_def, THEN conjunct2, THEN conjunct2, THEN conjunct2,
      THEN conjunct1, rule_format, OF assms(2)] .

lemma edgeTableD5:
  assumes "edgeTable m n ev ee qs" and "q \<in> set qs"
  shows "\<exists>x < n. samePair (snd q) (ev x)"
  using assms(1) [unfolded edgeTable_def, THEN conjunct2, THEN conjunct2, THEN conjunct2,
      THEN conjunct2, THEN conjunct1, rule_format, OF assms(2)] .

lemma edgeTableD6:
  assumes "edgeTable m n ev ee qs" and "x < n"
  shows "\<exists>q \<in> set qs. samePair (snd q) (ev x)"
  using assms(1) [unfolded edgeTable_def, THEN conjunct2, THEN conjunct2, THEN conjunct2,
      THEN conjunct2, THEN conjunct2, rule_format, OF assms(2)] .

lemma edgeTable_empty: "edgeTable Map.empty 0 ev ee []"
  unfolding edgeTable_def by (intro conjI allI impI ballI) simp_all

lemma edgeTable_unique:
  assumes "edgeTable m n ev ee qs" and "x < n" and "y < n" and "samePair (ev x) (ev y)"
  shows "x = y"
proof -
  obtain a b where ey: "ev y = (a, b)" by (cases "ev y")
  have mx: "m (ev x) = Some x" using assms(1,2) by (rule edgeTableD2)
  have my: "m (a, b) = Some y" using edgeTableD2 [OF assms(1,3)] ey by simp
  from assms(4) ey consider "ev x = (a, b)" | "ev x = (b, a)"
    unfolding samePair_def by auto
  then show ?thesis
  proof cases
    case 1
    with mx my show ?thesis by simp
  next
    case 2
    with mx have mba: "m (b, a) = Some x" by simp
    show ?thesis
    proof (cases "a = b")
      case True
      with mba my show ?thesis by simp
    next
      case False
      from edgeTableD3 [OF assms(1) False] mba my show ?thesis by simp
    qed
  qed
qed

lemma samePair_pairs: "samePair (a, b) (c, d) = ((a = c \<and> b = d) \<or> (a = d \<and> b = c))"
  by (simp add: samePair_def)

lemma samePair_sym: "samePair p q \<Longrightarrow> samePair q p"
  by (cases p, cases q) (auto simp: samePair_pairs)

lemma samePair_trans: "samePair p q \<Longrightarrow> samePair q r \<Longrightarrow> samePair p r"
  by (cases p, cases q, cases r) (auto simp: samePair_pairs)

lemma edgeTable_found:
  assumes inv: "edgeTable m n ev ee qs"
      and hit: "m (a, b) = Some x \<or> m (b, a) = Some x"
  shows "edgeTable m n ev (ee(x := ee x @ [el])) (qs @ [(el, (a, b))])"
proof -
  from hit have "x < n \<and> samePair (a, b) (ev x)"
  proof
    assume "m (a, b) = Some x"
    from edgeTableD1 [OF inv this] have "x < n" "ev x = (a, b)" by simp_all
    then show ?thesis by (simp add: samePair_pairs)
  next
    assume "m (b, a) = Some x"
    from edgeTableD1 [OF inv this] have "x < n" "ev x = (b, a)" by simp_all
    then show ?thesis by (simp add: samePair_pairs)
  qed
  then have x: "x < n" and px: "samePair (a, b) (ev x)" by simp_all
  have other: "\<not> samePair (a, b) (ev y)" if "y < n" "y \<noteq> x" for y
  proof
    assume "samePair (a, b) (ev y)"
    with px have "samePair (ev x) (ev y)"
      using samePair_sym samePair_trans by blast
    with edgeTable_unique [OF inv x that(1)] that(2) show False by simp
  qed
  show ?thesis
    unfolding edgeTable_def
  proof (intro conjI allI impI ballI)
    fix q x' assume "m q = Some x'"
    from edgeTableD1 [OF inv this] show "x' < n" "ev x' = q" by simp_all
  next
    fix y assume "y < n"
    with inv show "m (ev y) = Some y" by (rule edgeTableD2)
  next
    fix c d :: nat assume "c \<noteq> d"
    with inv show "m (c, d) = None \<or> m (d, c) = None" by (rule edgeTableD3)
  next
    fix y assume y: "y < n"
    with inv have old: "ee y = map fst (filter (\<lambda>q. samePair (snd q) (ev y)) qs)"
      by (rule edgeTableD4)
    show "(ee(x := ee x @ [el])) y
          = map fst (filter (\<lambda>q. samePair (snd q) (ev y)) (qs @ [(el, (a, b))]))"
    proof (cases "y = x")
      case True
      with old px show ?thesis by simp
    next
      case False
      with other [OF y] old show ?thesis by simp
    qed
  next
    fix q assume "q \<in> set (qs @ [(el, (a, b))])"
    then consider "q \<in> set qs" | "q = (el, (a, b))" by auto
    then show "\<exists>y<n. samePair (snd q) (ev y)"
    proof cases
      case 1
      with inv show ?thesis by (rule edgeTableD5)
    next
      case 2
      with x px show ?thesis by auto
    qed
  next
    fix y assume "y < n"
    with inv obtain q where "q \<in> set qs" "samePair (snd q) (ev y)"
      using edgeTableD6 by blast
    then show "\<exists>q \<in> set (qs @ [(el, (a, b))]). samePair (snd q) (ev y)" by auto
  qed
qed

lemma edgeTable_new:
  assumes inv: "edgeTable m n ev ee qs"
      and miss: "m (a, b) = None" "m (b, a) = None"
  shows "edgeTable (m((a, b) \<mapsto> n)) (n + 1) (ev(n := (a, b))) (ee(n := [el])) (qs @ [(el, (a, b))])"
proof -
  have fresh: "\<not> samePair (a, b) (ev y)" if "y < n" for y
  proof
    assume sp: "samePair (a, b) (ev y)"
    obtain c d where ey: "ev y = (c, d)" by (cases "ev y")
    from inv that have "m (ev y) = Some y" by (rule edgeTableD2)
    with ey have "m (c, d) = Some y" by simp
    moreover from sp ey have "(c, d) = (a, b) \<or> (c, d) = (b, a)"
      by (auto simp: samePair_pairs)
    ultimately show False using miss by auto
  qed
  have noq: "\<not> samePair (snd q) (a, b)" if "q \<in> set qs" for q
  proof
    assume sp: "samePair (snd q) (a, b)"
    from inv that obtain y where y: "y < n" "samePair (snd q) (ev y)"
      using edgeTableD5 by blast
    from sp y(2) have "samePair (a, b) (ev y)"
      using samePair_sym samePair_trans by blast
    with fresh [OF y(1)] show False ..
  qed
  have refl: "samePair (a, b) (a, b)" by (simp add: samePair_pairs)
  show ?thesis
    unfolding edgeTable_def
  proof (intro conjI allI impI ballI)
    fix q x' assume h: "(m((a, b) \<mapsto> n)) q = Some x'"
    have "x' < n + 1 \<and> (ev(n := (a, b))) x' = q"
    proof (cases "q = (a, b)")
      case True
      with h show ?thesis by simp
    next
      case False
      with h have "m q = Some x'" by simp
      from edgeTableD1 [OF inv this] show ?thesis by auto
    qed
    then show "x' < n + 1" "(ev(n := (a, b))) x' = q" by simp_all
  next
    fix y assume "y < n + 1"
    then consider "y < n" | "y = n" by (auto simp: less_Suc_eq)
    then show "(m((a, b) \<mapsto> n)) ((ev(n := (a, b))) y) = Some y"
    proof cases
      case 1
      with inv have my: "m (ev y) = Some y" by (rule edgeTableD2)
      with miss have "ev y \<noteq> (a, b)" by auto
      with 1 my show ?thesis by simp
    next
      case 2
      then show ?thesis by simp
    qed
  next
    fix c d :: nat assume cd: "c \<noteq> d"
    with inv have old: "m (c, d) = None \<or> m (d, c) = None" by (rule edgeTableD3)
    show "(m((a, b) \<mapsto> n)) (c, d) = None \<or> (m((a, b) \<mapsto> n)) (d, c) = None"
    proof (cases "(c, d) = (a, b)")
      case True
      with cd miss show ?thesis by auto
    next
      case False
      show ?thesis
      proof (cases "(d, c) = (a, b)")
        case True
        with cd miss show ?thesis by auto
      next
        case dc: False
        from False dc have "(m((a, b) \<mapsto> n)) (c, d) = m (c, d)" "(m((a, b) \<mapsto> n)) (d, c) = m (d, c)"
          by (metis fun_upd_other)+
        with old show ?thesis by (simp only:)
      qed
    qed
  next
    fix y assume "y < n + 1"
    then consider "y < n" | "y = n" by (auto simp: less_Suc_eq)
    then show "(ee(n := [el])) y
          = map fst (filter (\<lambda>q. samePair (snd q) ((ev(n := (a, b))) y)) (qs @ [(el, (a, b))]))"
    proof cases
      case 1
      with inv have "ee y = map fst (filter (\<lambda>q. samePair (snd q) (ev y)) qs)"
        by (rule edgeTableD4)
      moreover from 1 have "(ee(n := [el])) y = ee y" "(ev(n := (a, b))) y = ev y" by simp_all
      moreover have "filter (\<lambda>q. samePair (snd q) (ev y)) (qs @ [(el, (a, b))])
                     = filter (\<lambda>q. samePair (snd q) (ev y)) qs"
        using fresh [OF 1] by simp
      ultimately show ?thesis by (simp only:)
    next
      case 2
      have "filter (\<lambda>q. samePair (snd q) (a, b)) qs = []"
        using noq by (simp add: filter_empty_conv)
      then have "filter (\<lambda>q. samePair (snd q) (a, b)) (qs @ [(el, (a, b))]) = [(el, (a, b))]"
        using refl by simp
      moreover from 2 have "(ee(n := [el])) y = [el]" "(ev(n := (a, b))) y = (a, b)" by simp_all
      ultimately show ?thesis by (simp only: list.map fst_conv)
    qed
  next
    fix q assume "q \<in> set (qs @ [(el, (a, b))])"
    then consider "q \<in> set qs" | "q = (el, (a, b))" by auto
    then show "\<exists>y<n + 1. samePair (snd q) ((ev(n := (a, b))) y)"
    proof cases
      case 1
      with inv obtain y where "y < n" "samePair (snd q) (ev y)"
        using edgeTableD5 by blast
      then show ?thesis by (intro exI [of _ y]) simp
    next
      case 2
      with refl show ?thesis by (intro exI [of _ n]) simp
    qed
  next
    fix y assume "y < n + 1"
    then consider "y < n" | "y = n" by (auto simp: less_Suc_eq)
    then show "\<exists>q \<in> set (qs @ [(el, (a, b))]). samePair (snd q) ((ev(n := (a, b))) y)"
    proof cases
      case 1
      with inv obtain q where "q \<in> set qs" "samePair (snd q) (ev y)"
        using edgeTableD6 by blast
      with 1 show ?thesis by auto
    next
      case 2
      with refl show ?thesis by simp
    qed
  qed
qed


section \<open>The factory: the loop that creates the edges\<close>

lemma edgesInvD:
  assumes "edgesInv vs ne qs (m, g)"
  shows "length (freeIdCounter g) = 3" "entityImps g \<noteq> []"
    "\<And>el. elementVertex (elementAt g el) = vs el"
    "\<And>el. length (elementEdges (elementAt g el)) = ne el"
    "edgeList (entityImps g ! 0) = [0..<freeIdCounter g ! 1]"
    "\<And>a. edgeIsLeaf (edgeAt g a)"
    "edgeTable m (freeIdCounter g ! 1)
            (\<lambda>x. edgeVertex (edgeAt g x)) (\<lambda>x. edgeElements (edgeAt g x)) qs"
  using assms by (simp_all add: edgesInv_def)

lemma insertEdge_hit:
  assumes "(case m (elementVertex (elementAt g el) ! subEntity i 0,
                    elementVertex (elementAt g el) ! subEntity i 1) of
              Some x \<Rightarrow> Some x
            | None \<Rightarrow> m (elementVertex (elementAt g el) ! subEntity i 1,
                         elementVertex (elementAt g el) ! subEntity i 0)) = Some x"
  shows "insertEdge el i (m, g)
         = (m, g\<lparr>elementAt := (elementAt g)(el :=
                    (elementAt g el)\<lparr>elementEdges := (elementEdges (elementAt g el))[i := Some x]\<rparr>),
                 edgeAt := (edgeAt g)(x :=
                    (edgeAt g x)\<lparr>edgeElements := edgeElements (edgeAt g x) @ [el]\<rparr>)\<rparr>)"
  unfolding insertEdge_def Let_def prod.case assms option.case ..

lemma insertEdge_miss:
  assumes "m (elementVertex (elementAt g el) ! subEntity i 0,
              elementVertex (elementAt g el) ! subEntity i 1) = None"
      and "m (elementVertex (elementAt g el) ! subEntity i 1,
              elementVertex (elementAt g el) ! subEntity i 0) = None"
  shows "insertEdge el i (m, g)
         = (m((elementVertex (elementAt g el) ! subEntity i 0,
               elementVertex (elementAt g el) ! subEntity i 1) \<mapsto> freeIdCounter g ! 1),
            g\<lparr>entityImps := (entityImps g)
                  [0 := (entityImps g ! 0)\<lparr>edgeList := edgeList (entityImps g ! 0)
                                                          @ [freeIdCounter g ! 1]\<rparr>],
              freeIdCounter := (freeIdCounter g)[1 := freeIdCounter g ! 1 + 1],
              elementAt := (elementAt g)(el :=
                    (elementAt g el)\<lparr>elementEdges :=
                       (elementEdges (elementAt g el))[i := Some (freeIdCounter g ! 1)]\<rparr>),
              edgeAt := (edgeAt g)(freeIdCounter g ! 1 :=
                    \<lparr>entityLevel = 0, entityId = freeIdCounter g ! 1, levelIndex = None,
                     leafIndex = None,
                     edgeVertex = (elementVertex (elementAt g el) ! subEntity i 0,
                                   elementVertex (elementAt g el) ! subEntity i 1),
                     edgeElements = [el],
                     edgeSons = (None, None), boundaryId = None\<rparr>)\<rparr>)"
  unfolding insertEdge_def Let_def prod.case assms option.case onCoarseLevel_def
  by simp

lemma insertEdge_inv:
  assumes inv: "edgesInv vs ne qs (m, g)"
  shows "edgesInv vs ne (qs @ [(el, pairOfSlot vs el i)]) (insertEdge el i (m, g))"
proof -
  note d = edgesInvD [OF inv]
  define v0 where "v0 = vs el ! subEntity i 0"
  define v1 where "v1 = vs el ! subEntity i 1"
  define n where "n = freeIdCounter g ! 1"
  have v: "v0 = elementVertex (elementAt g el) ! subEntity i 0"
          "v1 = elementVertex (elementAt g el) ! subEntity i 1"
    by (simp_all add: v0_def v1_def d(3))
  have p: "pairOfSlot vs el i = (v0, v1)"
    by (simp add: pairOfSlot_def v0_def v1_def)
  have tab: "edgeTable m n (\<lambda>x. edgeVertex (edgeAt g x)) (\<lambda>x. edgeElements (edgeAt g x)) qs"
    using d(7) by (simp add: n_def)
  show ?thesis
  proof (cases "case m (v0, v1) of Some x \<Rightarrow> Some x | None \<Rightarrow> m (v1, v0)")
    case (Some x)
    then have hit: "m (v0, v1) = Some x \<or> m (v1, v0) = Some x"
      by (auto split: option.splits)
    let ?g' = "g\<lparr>elementAt := (elementAt g)(el :=
                    (elementAt g el)\<lparr>elementEdges := (elementEdges (elementAt g el))[i := Some x]\<rparr>),
                 edgeAt := (edgeAt g)(x :=
                    (edgeAt g x)\<lparr>edgeElements := edgeElements (edgeAt g x) @ [el]\<rparr>)\<rparr>"
    have res: "insertEdge el i (m, g) = (m, ?g')"
      using Some unfolding v by (rule insertEdge_hit)
    have ev: "(\<lambda>y. edgeVertex (edgeAt ?g' y)) = (\<lambda>y. edgeVertex (edgeAt g y))"
      by (rule ext) simp
    have ee: "(\<lambda>y. edgeElements (edgeAt ?g' y))
              = (\<lambda>y. edgeElements (edgeAt g y))(x := edgeElements (edgeAt g x) @ [el])"
      by (rule ext) simp
    have tab': "edgeTable m n (\<lambda>y. edgeVertex (edgeAt ?g' y)) (\<lambda>y. edgeElements (edgeAt ?g' y))
                  (qs @ [(el, (v0, v1))])"
      unfolding ev ee using tab hit by (rule edgeTable_found)
    have leaf: "edgeIsLeaf (edgeAt ?g' a)" for a
      using d(6) [of a] d(6) [of x] by (simp add: edgeIsLeaf_def)
    show ?thesis
      unfolding res p edgesInv_def
      using d(1,2,3,4,5) leaf tab' by (simp add: n_def)
  next
    case None
    then have miss: "m (v0, v1) = None" "m (v1, v0) = None"
      by (auto split: option.splits)
    let ?new = "\<lparr>entityLevel = 0, entityId = n, levelIndex = None, leafIndex = None,
                     edgeVertex = (v0, v1), edgeElements = [el],
                     edgeSons = (None, None), boundaryId = None\<rparr>"
    let ?g' = "g\<lparr>entityImps := (entityImps g)
                  [0 := (entityImps g ! 0)\<lparr>edgeList := edgeList (entityImps g ! 0) @ [n]\<rparr>],
              freeIdCounter := (freeIdCounter g)[1 := n + 1],
              elementAt := (elementAt g)(el :=
                    (elementAt g el)\<lparr>elementEdges := (elementEdges (elementAt g el))[i := Some n]\<rparr>),
              edgeAt := (edgeAt g)(n := ?new)\<rparr>"
    have res: "insertEdge el i (m, g) = (m((v0, v1) \<mapsto> n), ?g')"
      using miss unfolding v n_def by (rule insertEdge_miss)
    have ev: "(\<lambda>y. edgeVertex (edgeAt ?g' y)) = (\<lambda>y. edgeVertex (edgeAt g y))(n := (v0, v1))"
      by (rule ext) simp
    have ee: "(\<lambda>y. edgeElements (edgeAt ?g' y)) = (\<lambda>y. edgeElements (edgeAt g y))(n := [el])"
      by (rule ext) simp
    have cnt: "freeIdCounter ?g' ! 1 = n + 1"
      using d(1) by simp
    have tab': "edgeTable (m((v0, v1) \<mapsto> n)) (n + 1)
                  (\<lambda>y. edgeVertex (edgeAt ?g' y)) (\<lambda>y. edgeElements (edgeAt ?g' y))
                  (qs @ [(el, (v0, v1))])"
      unfolding ev ee using tab miss by (rule edgeTable_new)
    have leaf: "edgeIsLeaf (edgeAt ?g' a)" for a
      using d(6) [of a] by (simp add: edgeIsLeaf_def)
    have lst: "edgeList (entityImps ?g' ! 0) = [0..<n + 1]"
      using d(2,5) by (simp add: n_def)
    show ?thesis
      unfolding res p edgesInv_def
      using d(1,2,3,4) leaf tab' lst cnt by simp
  qed
qed

lemma insertEdges_inv:
  "edgesInv vs ne qs st \<Longrightarrow>
   edgesInv vs ne (qs @ map (\<lambda>i. (el, pairOfSlot vs el i)) is) (fold (insertEdge el) is st)"
proof (induction "is" arbitrary: qs st)
  case Nil
  then show ?case by simp
next
  case (Cons i "is")
  obtain m g where st: "st = (m, g)" by (cases st)
  from Cons.prems have "edgesInv vs ne (qs @ [(el, pairOfSlot vs el i)]) (insertEdge el i st)"
    unfolding st by (rule insertEdge_inv)
  from Cons.IH [OF this] show ?case by simp
qed

lemma createEdges_loop_inv:
  "edgesInv vs ne qs st \<Longrightarrow>
   edgesInv vs ne (qs @ slotsOf vs ne els)
     (fold (\<lambda>element st.
              fold (insertEdge element) [0..<length (elementEdges (elementAt (snd st) element))] st)
        els st)"
proof (induction els arbitrary: qs st)
  case Nil
  then show ?case by (simp add: slotsOf_def)
next
  case (Cons el els)
  obtain m g where st: "st = (m, g)" by (cases st)
  from Cons.prems st have len: "length (elementEdges (elementAt (snd st) el)) = ne el"
    using edgesInvD(4) by simp
  from Cons.prems
  have "edgesInv vs ne (qs @ map (\<lambda>i. (el, pairOfSlot vs el i)) [0..<ne el])
          (fold (insertEdge el) [0..<ne el] st)"
    by (rule insertEdges_inv)
  from Cons.IH [OF this] len show ?case by (simp add: slotsOf_def)
qed

lemma coarseMesh_edgesInv:
  assumes "coarseMesh ts f" and "grid f = Some g"
  shows "edgesInv (\<lambda>el. elementVertex (elementAt g el)) (\<lambda>el. length (elementEdges (elementAt g el)))
           [] (Map.empty, g)"
proof -
  from assms have a: "length (entityImps g) = 1" "length (freeIdCounter g) = 3"
      "edgeList (entityImps g ! 0) = []" "freeIdCounter g ! 1 = 0" "\<forall>a. edgeIsLeaf (edgeAt g a)"
    by (auto simp: coarseMesh_def)
  from a(1) have ne: "entityImps g \<noteq> []" by auto
  show ?thesis
    unfolding edgesInv_def using a ne by (simp add: edgeTable_empty)
qed

lemma createEdges_inv:
  assumes "coarseMesh ts f" and "grid f = Some g"
  shows "edgesInv (\<lambda>el. elementVertex (elementAt g el)) (\<lambda>el. length (elementEdges (elementAt g el)))
           (slotsOf (\<lambda>el. elementVertex (elementAt g el))
                    (\<lambda>el. length (elementEdges (elementAt g el))) (elementList (entityImps g ! 0)))
           (createEdges g)"
  using createEdges_loop_inv [OF coarseMesh_edgesInv [OF assms], of "elementList (entityImps g ! 0)"]
  by (simp add: createEdges_def)


section \<open>The factory: index pass and boundary ids\<close>

text \<open>
  The index pass changes neither the lists of entities nor the vertices and incidence
  lists of the edges, and it succeeds on a grid whose edges are all leaves.  The loop
  over the edges of level \<open>0\<close> gives the \<open>k\<close>-th edge the boundary id \<open>k\<close>.
\<close>

lemma levelUpdate_frame:
  assumes "levelUpdate g lv s = Inr (g', s')"
  shows "entityImps g' = entityImps g" "edgeAt g' = edgeAt g"
  using assms by (auto simp: levelUpdate_def Let_def split: if_splits prod.splits)

lemma levelUpdate_succeeds:
  "lv < length (entityImps g) \<Longrightarrow> \<exists>r. levelUpdate g lv s = Inr r"
  by (simp add: levelUpdate_def Let_def split: prod.splits)

lemma updateLevelIndexSets_frame:
  "updateLevelIndexSets ls g = Inr g' \<Longrightarrow> entityImps g' = entityImps g \<and> edgeAt g' = edgeAt g"
proof (induction ls arbitrary: g)
  case Nil
  then show ?case by simp
next
  case (Cons i ls)
  from Cons.prems obtain g1 s1 where
    l: "levelUpdate g i (levelIndexSets g ! i) = Inr (g1, s1)"
    and r: "updateLevelIndexSets ls (g1\<lparr>levelIndexSets := (levelIndexSets g1)[i := s1]\<rparr>) = Inr g'"
    by (auto split: sum.splits)
  from Cons.IH [OF r] levelUpdate_frame [OF l] show ?case by simp
qed

lemma updateLevelIndexSets_succeeds:
  "(\<forall>i \<in> set ls. i < length (entityImps g)) \<Longrightarrow> \<exists>g'. updateLevelIndexSets ls g = Inr g'"
proof (induction ls arbitrary: g)
  case Nil
  then show ?case by simp
next
  case (Cons i ls)
  then have "i < length (entityImps g)" by simp
  from levelUpdate_succeeds [OF this] obtain g1 s1 where
    l: "levelUpdate g i (levelIndexSets g ! i) = Inr (g1, s1)" by fastforce
  let ?g1 = "g1\<lparr>levelIndexSets := (levelIndexSets g1)[i := s1]\<rparr>"
  from levelUpdate_frame(1) [OF l] Cons.prems
  have "\<forall>j \<in> set ls. j < length (entityImps ?g1)" by simp
  from Cons.IH [OF this] l show ?case by simp
qed

lemma leafUpdate_frame:
  assumes "leafUpdate g s = Inr (g', s')"
  shows "entityImps g' = entityImps g"
    and "edgeElements (edgeAt g' a) = edgeElements (edgeAt g a)"
    and "edgeVertex (edgeAt g' a) = edgeVertex (edgeAt g a)"
proof -
  obtain eh n2 where e: "assignIndices putLeafIndex (leafElements g) (elementAt g, 0) = (eh, n2)"
    by (cases "assignIndices putLeafIndex (leafElements g) (elementAt g, 0)")
  obtain vh n0 where v: "fold setVertexLeafIndex (vertexVisits g) (vertexAt g, 0) = (vh, n0)"
    by (cases "fold setVertexLeafIndex (vertexVisits g) (vertexAt g, 0)")
  obtain dh n1 where d: "assignIndices putLeafIndex (edgeVisits g) (edgeAt g, 0) = (dh, n1)"
    by (cases "assignIndices putLeafIndex (edgeVisits g) (edgeAt g, 0)")
  from assms have leaves: "\<forall>a \<in> set (edgeVisits g). edgeIsLeaf (edgeAt g a)"
    by (auto simp: leafUpdate_unfold edgePass_cases Let_def split: prod.splits if_splits)
  from assms e v d leaves have g': "g' = g\<lparr>elementAt := eh, edgeAt := dh, vertexAt := vh\<rparr>"
    by (auto simp: leafUpdate_unfold edgePass_cases Let_def)
  have dh: "dh = fst (assignIndices putLeafIndex (edgeVisits g) (edgeAt g, 0))"
    using d by simp
  show "entityImps g' = entityImps g" by (simp add: g')
  show "edgeElements (edgeAt g' a) = edgeElements (edgeAt g a)"
    unfolding g' dh by (simp add: assignIndices_frame putLeafIndex_def)
  show "edgeVertex (edgeAt g' a) = edgeVertex (edgeAt g a)"
    unfolding g' dh by (simp add: assignIndices_frame putLeafIndex_def)
qed

lemma leafUpdate_succeeds:
  assumes "\<forall>a. edgeIsLeaf (edgeAt g a)"
  shows "\<exists>r. leafUpdate g s = Inr r"
  using assms by (simp add: leafUpdate_unfold edgePass_cases Let_def split: prod.splits)

lemma setIndices_frame:
  assumes "setIndices g = Inr g'"
  shows "entityImps g' = entityImps g"
    and "edgeElements (edgeAt g' a) = edgeElements (edgeAt g a)"
    and "edgeVertex (edgeAt g' a) = edgeVertex (edgeAt g a)"
proof -
  let ?g0 = "g\<lparr>levelIndexSets := levelIndexSets g
                  @ replicate (length (entityImps g) - length (levelIndexSets g)) emptyLevelIndexSet\<rparr>"
  from assms obtain g1 g2 s where
    u: "updateLevelIndexSets [0..<length (entityImps ?g0)] ?g0 = Inr g1"
    and l: "leafUpdate g1 (leafIndexSet g1) = Inr (g2, s)"
    and g': "g' = g2\<lparr>leafIndexSet := s\<rparr>"
    by (auto simp: setIndices_def Let_def split: sum.splits)
  from updateLevelIndexSets_frame [OF u] have f1: "entityImps g1 = entityImps g" "edgeAt g1 = edgeAt g"
    by simp_all
  show "entityImps g' = entityImps g"
    using leafUpdate_frame(1) [OF l] f1 by (simp add: g')
  show "edgeElements (edgeAt g' a) = edgeElements (edgeAt g a)"
    using leafUpdate_frame(2) [OF l, of a] f1 by (simp add: g')
  show "edgeVertex (edgeAt g' a) = edgeVertex (edgeAt g a)"
    using leafUpdate_frame(3) [OF l, of a] f1 by (simp add: g')
qed

lemma setIndices_succeeds:
  assumes "\<forall>a. edgeIsLeaf (edgeAt g a)"
  shows "\<exists>g'. setIndices g = Inr g'"
proof -
  let ?g0 = "g\<lparr>levelIndexSets := levelIndexSets g
                  @ replicate (length (entityImps g) - length (levelIndexSets g)) emptyLevelIndexSet\<rparr>"
  have "\<forall>i \<in> set [0..<length (entityImps ?g0)]. i < length (entityImps ?g0)" by simp
  from updateLevelIndexSets_succeeds [OF this] obtain g1 where
    u: "updateLevelIndexSets [0..<length (entityImps ?g0)] ?g0 = Inr g1" by blast
  from updateLevelIndexSets_frame [OF u] assms have "\<forall>a. edgeIsLeaf (edgeAt g1 a)" by simp
  from leafUpdate_succeeds [OF this] obtain g2 s where
    "leafUpdate g1 (leafIndexSet g1) = Inr (g2, s)" by fastforce
  with u show ?thesis by (simp add: setIndices_def Let_def)
qed

lemma boundaryLoop_frame:
  "entityImps (fst (fold boundaryStep es (g, n))) = entityImps g
   \<and> edgeElements (edgeAt (fst (fold boundaryStep es (g, n))) a) = edgeElements (edgeAt g a)
   \<and> (a \<notin> set es \<longrightarrow> edgeAt (fst (fold boundaryStep es (g, n))) a = edgeAt g a)"
  by (induction es arbitrary: g n) (simp_all add: boundaryStep_def)

lemma boundaryLoop_nth:
  "distinct es \<Longrightarrow> k < length es \<Longrightarrow>
   boundaryId (edgeAt (fst (fold boundaryStep es (g, n))) (es ! k)) = Some (n + k)"
proof (induction es arbitrary: g n k)
  case Nil
  then show ?case by simp
next
  case (Cons a es)
  let ?g1 = "g\<lparr>edgeAt := (edgeAt g)(a := (edgeAt g a)\<lparr>boundaryId := Some n\<rparr>)\<rparr>"
  have step: "fold boundaryStep (a # es) (g, n) = fold boundaryStep es (?g1, n + 1)"
    by (simp add: boundaryStep_def)
  show ?case
  proof (cases k)
    case 0
    from Cons.prems have "a \<notin> set es" by simp
    with boundaryLoop_frame [of es ?g1 "n + 1" a]
    have "edgeAt (fst (fold boundaryStep es (?g1, n + 1))) a = edgeAt ?g1 a" by simp
    with 0 step show ?thesis by simp
  next
    case (Suc k')
    with Cons.prems have "distinct es" "k' < length es" by simp_all
    from Cons.IH [OF this, of ?g1 "n + 1"] Suc step show ?thesis by simp
  qed
qed

lemma setBoundaryIds_fold:
  "setBoundaryIds g = fst (fold boundaryStep (edgeList (entityImps g ! 0)) (g, 0))"
  by (simp add: setBoundaryIds_def boundaryStep_def)


section \<open>The factory: counting the triangles at an edge\<close>

text \<open>
  A triangle with three distinct corners has at most one slot for a pair of vertices,
  so an edge has at most as many incident elements as there are triangles with both of
  its vertices among their corners.
\<close>

lemma slots_of_triangle:
  assumes "vs el = [p, q, r]"
  shows "map (\<lambda>i. (el, pairOfSlot vs el i)) [0..<3] = [(el, (p, q)), (el, (p, r)), (el, (q, r))]"
  by (simp add: pairOfSlot_def subEntity_def assms upt_rec numeral_nat)

lemma triangle_slots_count:
  assumes "distinct [p, q, r]"
  shows "length (filter (\<lambda>s. samePair (snd s) (a, b)) [(el, (p, q)), (el, (p, r)), (el, (q, r))])
         \<le> (if a \<in> set [p, q, r] \<and> b \<in> set [p, q, r] then 1 else 0)"
  using assms by (auto simp: samePair_pairs)

lemma triangle_slots_proper:
  assumes "distinct [p, q, r]" and "s \<in> set [(el, (p, q)), (el, (p, r)), (el, (q, r))]"
    and "samePair (snd s) (a, b)"
  shows "a \<noteq> b"
  using assms by (auto simp: samePair_pairs)

lemma length_filter_concat_le:
  "(\<forall>x \<in> set xs. length (filter P (f x)) \<le> (if Q x then 1 else 0)) \<Longrightarrow>
   length (filter P (concat (map f xs))) \<le> length (filter Q xs)"
  by (induction xs) (auto split: if_splits)

lemma length_filter_nth:
  "length (filter (\<lambda>i. R (ts ! i)) [0..<length ts]) = length (filter R ts)"
proof -
  have "{i. i < length ts \<and> R (ts ! ([0..<length ts] ! i))} = {i. i < length ts \<and> R (ts ! i)}"
    by auto
  then show ?thesis by (simp add: length_filter_conv_card)
qed

lemma triangleSlots_count:
  assumes "\<forall>t \<in> set ts. distinct (corners3 t)"
  shows "length (filter (\<lambda>s. samePair (snd s) (a, b)) (triangleSlots ts))
         \<le> length (filter (\<lambda>t. a \<in> set (corners3 t) \<and> b \<in> set (corners3 t)) ts)"
proof -
  let ?f = "\<lambda>el. map (\<lambda>i. (el, pairOfSlot (\<lambda>el. corners3 (ts ! el)) el i)) [0..<3]"
  let ?Q = "\<lambda>el. a \<in> set (corners3 (ts ! el)) \<and> b \<in> set (corners3 (ts ! el))"
  have "\<forall>el \<in> set [0..<length ts].
          length (filter (\<lambda>s. samePair (snd s) (a, b)) (?f el)) \<le> (if ?Q el then 1 else 0)"
  proof
    fix el assume "el \<in> set [0..<length ts]"
    then have "ts ! el \<in> set ts" by simp
    with assms have d: "distinct (corners3 (ts ! el))" by blast
    have c: "corners3 (ts ! el) = [ts ! el ! 0, ts ! el ! 1, ts ! el ! 2]"
      by (simp add: corners3_def)
    have s: "?f el = [(el, (ts ! el ! 0, ts ! el ! 1)), (el, (ts ! el ! 0, ts ! el ! 2)),
                     (el, (ts ! el ! 1, ts ! el ! 2))]"
      by (rule slots_of_triangle) (rule c)
    from d have d': "distinct [ts ! el ! 0, ts ! el ! 1, ts ! el ! 2]" unfolding c .
    show "length (filter (\<lambda>s. samePair (snd s) (a, b)) (?f el)) \<le> (if ?Q el then 1 else 0)"
      unfolding s c by (rule triangle_slots_count [OF d'])
  qed
  from length_filter_concat_le [of "[0..<length ts]" "\<lambda>s. samePair (snd s) (a, b)" ?f ?Q, OF this]
  have "length (filter (\<lambda>s. samePair (snd s) (a, b)) (triangleSlots ts))
        \<le> length (filter ?Q [0..<length ts])"
    by (simp add: triangleSlots_def slotsOf_def)
  also have "\<dots> = length (filter (\<lambda>t. a \<in> set (corners3 t) \<and> b \<in> set (corners3 t)) ts)"
    by (rule length_filter_nth)
  finally show ?thesis .
qed

lemma triangleSlots_proper:
  assumes "\<forall>t \<in> set ts. distinct (corners3 t)" and "s \<in> set (triangleSlots ts)"
    and "samePair (snd s) (a, b)"
  shows "a \<noteq> b"
proof -
  let ?f = "\<lambda>el. map (\<lambda>i. (el, pairOfSlot (\<lambda>el. corners3 (ts ! el)) el i)) [0..<3]"
  from assms(2) obtain el where el: "el < length ts" and s: "s \<in> set (?f el)"
    by (auto simp: triangleSlots_def slotsOf_def)
  from el have "ts ! el \<in> set ts" by simp
  with assms(1) have d: "distinct (corners3 (ts ! el))" by blast
  have c: "corners3 (ts ! el) = [ts ! el ! 0, ts ! el ! 1, ts ! el ! 2]"
    by (simp add: corners3_def)
  have f: "?f el = [(el, (ts ! el ! 0, ts ! el ! 1)), (el, (ts ! el ! 0, ts ! el ! 2)),
                   (el, (ts ! el ! 1, ts ! el ! 2))]"
    by (rule slots_of_triangle) (rule c)
  from d have d': "distinct [ts ! el ! 0, ts ! el ! 1, ts ! el ! 2]" unfolding c .
  from s have s': "s \<in> set [(el, (ts ! el ! 0, ts ! el ! 1)), (el, (ts ! el ! 0, ts ! el ! 2)),
                   (el, (ts ! el ! 1, ts ! el ! 2))]" unfolding f .
  show ?thesis by (rule triangle_slots_proper [OF d' s' assms(3)])
qed

lemma coarseMesh_slots:
  assumes "coarseMesh ts f" and "grid f = Some g"
  shows "slotsOf (\<lambda>el. elementVertex (elementAt g el))
                 (\<lambda>el. length (elementEdges (elementAt g el))) (elementList (entityImps g ! 0))
         = triangleSlots ts"
proof -
  from assms have els: "elementList (entityImps g ! 0) = [0..<length ts]"
    and k: "\<forall>k < length ts. elementVertex (elementAt g k) = corners3 (ts ! k)
                           \<and> length (elementEdges (elementAt g k)) = 3"
    by (auto simp: coarseMesh_def)
  have "map (\<lambda>el. map (\<lambda>i. (el, pairOfSlot (\<lambda>el. elementVertex (elementAt g el)) el i))
                    [0..<length (elementEdges (elementAt g el))]) [0..<length ts]
        = map (\<lambda>el. map (\<lambda>i. (el, pairOfSlot (\<lambda>el. corners3 (ts ! el)) el i)) [0..<3])
            [0..<length ts]"
    using k by (intro map_cong refl) (simp_all add: pairOfSlot_def)
  then show ?thesis unfolding slotsOf_def triangleSlots_def els by (rule arg_cong)
qed

text \<open>
  The grid that \<^verbatim>\<open>createGrid\<close> hands over for a coarse mesh: its edges are numbered
  in the order of creation, each holds its number as boundary id, and the incidence
  list of each is the list of the elements with a slot for its pair of vertices.
\<close>

lemma createGrid_coarseMesh:
  assumes "coarseMesh ts f"
  shows "\<exists>g f' n ev. createGrid f = Inr (Some g, f') \<and> grid f' = None
           \<and> edgeList (entityImps g ! 0) = [0..<n]
           \<and> (\<forall>k < n. boundaryId (edgeAt g k) = Some k)
           \<and> (\<forall>x < n. edgeElements (edgeAt g x)
                         = map fst (filter (\<lambda>s. samePair (snd s) (ev x)) (triangleSlots ts))
                       \<and> (\<exists>s \<in> set (triangleSlots ts). samePair (snd s) (ev x)))"
proof -
  from assms obtain g0 where g0: "grid f = Some g0" by (auto simp: coarseMesh_def)
  obtain m g1 where ce: "createEdges g0 = (m, g1)" by (cases "createEdges g0")
  have inv: "edgesInv (\<lambda>el. elementVertex (elementAt g0 el))
               (\<lambda>el. length (elementEdges (elementAt g0 el))) (triangleSlots ts) (m, g1)"
    using createEdges_inv [OF assms g0] unfolding coarseMesh_slots [OF assms g0] ce .
  note d = edgesInvD [OF inv]
  let ?n = "freeIdCounter g1 ! 1"
  let ?ev = "\<lambda>x. edgeVertex (edgeAt g1 x)"
  have "\<forall>a. edgeIsLeaf (edgeAt g1 a)" using d(6) by simp
  from setIndices_succeeds [OF this] obtain g2 where si: "setIndices g1 = Inr g2" by blast
  let ?g = "setBoundaryIds g2"
  note fr = setIndices_frame [OF si]
  have cg: "createGrid f = Inr (Some ?g, f\<lparr>grid := None\<rparr>)"
    by (simp add: createGrid_def g0 ce si)
  have imps: "entityImps ?g = entityImps g1"
    using boundaryLoop_frame [of "edgeList (entityImps g2 ! 0)" g2 0] fr(1)
    by (simp add: setBoundaryIds_fold)
  have el: "edgeList (entityImps ?g ! 0) = [0..<?n]" using imps d(5) by simp
  have el2: "edgeList (entityImps g2 ! 0) = [0..<?n]" using fr(1) d(5) by simp
  have bid: "boundaryId (edgeAt ?g k) = Some k" if "k < ?n" for k
    using boundaryLoop_nth [of "[0..<?n]" k g2 0] that by (simp add: setBoundaryIds_fold el2)
  have ee: "edgeElements (edgeAt ?g x) = edgeElements (edgeAt g1 x)" for x
    using boundaryLoop_frame [of "edgeList (entityImps g2 ! 0)" g2 0 x] fr(2) [of x]
    by (simp add: setBoundaryIds_fold)
  have inc: "edgeElements (edgeAt ?g x)
               = map fst (filter (\<lambda>s. samePair (snd s) (?ev x)) (triangleSlots ts))
             \<and> (\<exists>s \<in> set (triangleSlots ts). samePair (snd s) (?ev x))" if "x < ?n" for x
    using edgeTableD4 [OF d(7) that] edgeTableD6 [OF d(7) that] ee [of x] by simp
  show ?thesis
    using cg el bid inc
    by (intro exI [of _ ?g] exI [of _ "f\<lparr>grid := None\<rparr>"] exI [of _ ?n] exI [of _ ?ev]) simp
qed


section \<open>Properties of \<open>createGrid\<close>\<close>

lemmas factory_eval = squareGrid_def squareFactory_def squareCalls_def newGridFactory_def
  newFoamGrid_def insertVertex_def insertElement_def onCoarseLevel_def isTriangle_def dim_def
  Let_def createGrid_def createEdges_def insertEdge_def subEntity_def upt_rec numeral_nat
  setIndices_def setBoundaryIds_def leafUpdate_def levelUpdate_def emptyLevelIndexSet_def
  assignIndices_def putLeafIndex_def putLevelIndex_def leafElements_def elementIsLeaf'_def
  edgeIsLeaf_def levelsDownward_def maxLevel_def typesPresent_def

text \<open>
  Claim C3 as the specification states it does not hold.  In the unit square of two
  triangles the edge \<open>2\<close> has the two incident elements \<open>0\<close> and \<open>1\<close>, so it is
  not a boundary edge, and \<^verbatim>\<open>createGrid\<close> gives it the boundary id \<open>2\<close>.
\<close>

theorem boundary_id_interior_edge_counterexample:
  "factoryCalls squareCalls newGridFactory = Inr squareFactory
   \<and> createGrid squareFactory = Inr (Some squareGrid, squareFactory\<lparr>grid := None\<rparr>)
   \<and> edgeList (entityImps squareGrid ! 0) = [0, 1, 2, 3, 4]
   \<and> edgeElements (edgeAt squareGrid 2) = [0, 1]
   \<and> boundaryId (edgeAt squareGrid 2) = Some 2"
  by (simp add: factory_eval)

text \<open>
  Claim C3, amended.  After \<^verbatim>\<open>createGrid\<close> has finalised a coarse mesh built by calls
  of the factory, every edge of level \<open>0\<close>, whatever the size of its incidence list,
  holds a boundary id: the \<open>k\<close>-th edge in the order of creation holds \<open>k\<close>, so the
  ids are consecutive and start at \<open>0\<close>.
\<close>

theorem boundary_ids_every_edge:
  assumes "factoryCalls cs newGridFactory = Inr f"
  shows "\<exists>g f'. createGrid f = Inr (Some g, f')
           \<and> (\<forall>k < length (edgeList (entityImps g ! 0)).
                 boundaryId (edgeAt g (edgeList (entityImps g ! 0) ! k)) = Some k)"
proof -
  from createGrid_coarseMesh [OF factoryCalls_coarseMesh [OF assms]]
  obtain g f' n where "createGrid f = Inr (Some g, f')"
    and "edgeList (entityImps g ! 0) = [0..<n]"
    and "\<forall>k < n. boundaryId (edgeAt g k) = Some k"
    by blast
  then show ?thesis by (intro exI [of _ g] exI [of _ f']) simp
qed

theorem boundary_ids_every_edge_witness:
  "factoryCalls squareCalls newGridFactory = Inr squareFactory
   \<and> (\<exists>g f'. createGrid squareFactory = Inr (Some g, f')
         \<and> (\<forall>k < length (edgeList (entityImps g ! 0)).
               boundaryId (edgeAt g (edgeList (entityImps g ! 0) ! k)) = Some k))
   \<and> map (\<lambda>e. boundaryId (edgeAt squareGrid e)) (edgeList (entityImps squareGrid ! 0))
       = [Some 0, Some 1, Some 2, Some 3, Some 4]"
proof -
  have f: "factoryCalls squareCalls newGridFactory = Inr squareFactory"
    by (simp add: factory_eval)
  have "map (\<lambda>e. boundaryId (edgeAt squareGrid e)) (edgeList (entityImps squareGrid ! 0))
       = [Some 0, Some 1, Some 2, Some 3, Some 4]"
    by (simp add: factory_eval)
  with f boundary_ids_every_edge [OF f] show ?thesis by blast
qed

text \<open>
  Claim C5.  For every coarse mesh built by calls of the factory that do not fail (each
  triangle refers to vertices inserted before it), in which the three corners of each
  triangle are distinct and every pair of distinct vertices belongs to at most two
  triangles, \<^verbatim>\<open>createGrid\<close> hands over a grid in which the incidence list of every edge
  has \<open>1\<close> or \<open>2\<close> entries, never none.
\<close>

theorem coarse_edges_incidence:
  assumes "factoryCalls cs newGridFactory = Inr f"
    and "\<forall>t \<in> set (insertedTriangles cs). distinct (corners3 t)"
    and "\<forall>a b. a \<noteq> b \<longrightarrow>
           length (filter (\<lambda>t. a \<in> set (corners3 t) \<and> b \<in> set (corners3 t))
                     (insertedTriangles cs)) \<le> 2"
  shows "\<exists>g f'. createGrid f = Inr (Some g, f')
           \<and> (\<forall>e \<in> set (edgeList (entityImps g ! 0)).
                 length (edgeElements (edgeAt g e)) = 1 \<or> length (edgeElements (edgeAt g e)) = 2)"
proof -
  let ?ts = "insertedTriangles cs"
  from createGrid_coarseMesh [OF factoryCalls_coarseMesh [OF assms(1)]]
  obtain g f' n ev where cg: "createGrid f = Inr (Some g, f')"
    and el: "edgeList (entityImps g ! 0) = [0..<n]"
    and inc: "\<forall>x < n. edgeElements (edgeAt g x)
                         = map fst (filter (\<lambda>s. samePair (snd s) (ev x)) (triangleSlots ?ts))
                       \<and> (\<exists>s \<in> set (triangleSlots ?ts). samePair (snd s) (ev x))"
    by blast
  have "length (edgeElements (edgeAt g e)) = 1 \<or> length (edgeElements (edgeAt g e)) = 2"
    if "e \<in> set (edgeList (entityImps g ! 0))" for e
  proof -
    from that el have e: "e < n" by simp
    obtain a b where ev: "ev e = (a, b)" by (cases "ev e")
    let ?hits = "filter (\<lambda>s. samePair (snd s) (a, b)) (triangleSlots ?ts)"
    from inc [rule_format, OF e] have len: "length (edgeElements (edgeAt g e)) = length ?hits"
      and ex: "\<exists>s \<in> set (triangleSlots ?ts). samePair (snd s) (a, b)"
      unfolding ev by simp_all
    from ex obtain s where s: "s \<in> set (triangleSlots ?ts)" "samePair (snd s) (a, b)" by blast
    then have "s \<in> set ?hits" by simp
    then have "?hits \<noteq> []" by (metis empty_iff list.set(1))
    then have lo: "1 \<le> length ?hits" by (cases ?hits) simp_all
    have "a \<noteq> b" by (rule triangleSlots_proper [OF assms(2) s])
    with assms(3) have "length (filter (\<lambda>t. a \<in> set (corners3 t) \<and> b \<in> set (corners3 t)) ?ts) \<le> 2"
      by blast
    with triangleSlots_count [OF assms(2), of a b] have "length ?hits \<le> 2" by linarith
    with lo len show ?thesis by linarith
  qed
  with cg show ?thesis by blast
qed

theorem coarse_edges_incidence_witness:
  "factoryCalls squareCalls newGridFactory = Inr squareFactory
   \<and> insertedTriangles squareCalls = [[0, 1, 2], [1, 3, 2]]
   \<and> (\<exists>g f'. createGrid squareFactory = Inr (Some g, f')
         \<and> (\<forall>e \<in> set (edgeList (entityImps g ! 0)).
               length (edgeElements (edgeAt g e)) = 1 \<or> length (edgeElements (edgeAt g e)) = 2))
   \<and> map (\<lambda>e. edgeElements (edgeAt squareGrid e)) (edgeList (entityImps squareGrid ! 0))
       = [[0], [0], [0, 1], [1], [1]]"
proof -
  have f: "factoryCalls squareCalls newGridFactory = Inr squareFactory"
    by (simp add: factory_eval)
  have ts: "insertedTriangles squareCalls = [[0, 1, 2], [1, 3, 2]]"
    by (simp add: squareCalls_def corners3_def)
  have d: "\<forall>t \<in> set (insertedTriangles squareCalls). distinct (corners3 t)"
    by (simp add: ts corners3_def)
  have p: "\<forall>a b. a \<noteq> b \<longrightarrow>
           length (filter (\<lambda>t. a \<in> set (corners3 t) \<and> b \<in> set (corners3 t))
                     (insertedTriangles squareCalls)) \<le> 2"
    by (simp add: ts)
  have "map (\<lambda>e. edgeElements (edgeAt squareGrid e)) (edgeList (entityImps squareGrid ! 0))
       = [[0], [0], [0, 1], [1], [1]]"
    by (simp add: factory_eval)
  with f ts coarse_edges_incidence [OF f d p] show ?thesis by blast
qed

subsection \<open>What \<open>createGrid\<close> leaves of the inserted mesh\<close>

text \<open>
  Creating the edges, the index pass and the loop over the boundary ids leave the
  vertices and elements that were inserted as they are: they add edges, fill the edge
  slots of the elements and set indices and boundary ids.
\<close>

lemma insertedMesh_eqI:
  assumes "map vertexList (entityImps g') = map vertexList (entityImps g)"
    and "map elementList (entityImps g') = map elementList (entityImps g)"
    and "\<And>a. entityId (vertexAt g' a) = entityId (vertexAt g a)"
    and "\<And>a. elementVertex (elementAt g' a) = elementVertex (elementAt g a)"
    and "\<And>a. entityId (elementAt g' a) = entityId (elementAt g a)"
  shows "insertedMesh g' = insertedMesh g"
  using assms by (simp add: insertedMesh_def)

lemma edgeList_update_frame:
  "map vertexList (xs[0 := (xs ! 0)\<lparr>edgeList := es\<rparr>]) = map vertexList xs"
  "map elementList (xs[0 := (xs ! 0)\<lparr>edgeList := es\<rparr>]) = map elementList xs"
  by (cases xs; simp)+

lemma insertEdge_mesh:
  "insertedMesh (snd (insertEdge el i st)) = insertedMesh (snd st)"
proof (cases st)
  case (Pair m g)
  show ?thesis
    unfolding Pair
    by (rule insertedMesh_eqI)
       (simp_all add: insertEdge_def Let_def onCoarseLevel_def edgeList_update_frame
          split: option.splits)
qed

lemma fold_frame:
  assumes "\<And>x s. proj (step x s) = proj s"
  shows "proj (fold step xs s) = proj s"
  using assms by (induction xs arbitrary: s) simp_all

lemma createEdges_mesh: "insertedMesh (snd (createEdges g)) = insertedMesh g"
proof -
  have inner: "insertedMesh (snd (fold (insertEdge el) is st)) = insertedMesh (snd st)"
    for el "is" st
    by (rule fold_frame [where proj = "\<lambda>st. insertedMesh (snd st)"]) (rule insertEdge_mesh)
  have "insertedMesh (snd (fold (\<lambda>element st.
             fold (insertEdge element) [0..<length (elementEdges (elementAt (snd st) element))] st)
           els st)) = insertedMesh (snd st)" for els st
    by (rule fold_frame [where proj = "\<lambda>st. insertedMesh (snd st)"]) (rule inner)
  then show ?thesis by (simp add: createEdges_def)
qed

lemma levelUpdate_mesh:
  assumes "levelUpdate g lv s = Inr (g', s')"
  shows "insertedMesh g' = insertedMesh g"
proof -
  from assms have g': "g' = g\<lparr>elementAt :=
        fst (assignIndices putLevelIndex (elementList (entityImps g ! lv)) (elementAt g, 0)),
      vertexAt := fst (assignIndices putLevelIndex (vertexList (entityImps g ! lv)) (vertexAt g, 0))\<rparr>"
    by (auto simp: levelUpdate_def Let_def split: if_splits prod.splits)
  show ?thesis
    unfolding g'
    by (rule insertedMesh_eqI) (simp_all add: assignIndices_frame putLevelIndex_def)
qed

lemma updateLevelIndexSets_mesh:
  "updateLevelIndexSets ls g = Inr g' \<Longrightarrow> insertedMesh g' = insertedMesh g"
proof (induction ls arbitrary: g)
  case Nil
  then show ?case by simp
next
  case (Cons i ls)
  from Cons.prems obtain g1 s1 where
    l: "levelUpdate g i (levelIndexSets g ! i) = Inr (g1, s1)"
    and r: "updateLevelIndexSets ls (g1\<lparr>levelIndexSets := (levelIndexSets g1)[i := s1]\<rparr>) = Inr g'"
    by (auto split: sum.splits)
  have "insertedMesh (g1\<lparr>levelIndexSets := (levelIndexSets g1)[i := s1]\<rparr>) = insertedMesh g1"
    by (simp add: insertedMesh_def)
  with Cons.IH [OF r] levelUpdate_mesh [OF l] show ?case by simp
qed

lemma sameShape_entityId: "sameShape v v' \<Longrightarrow> entityId v = entityId v'"
proof -
  assume "sameShape v v'"
  then have "entityId (v\<lparr>leafIndex := None\<rparr>) = entityId (v'\<lparr>leafIndex := None\<rparr>)"
    unfolding sameShape_def by (rule arg_cong)
  then show ?thesis by simp
qed

lemma leafUpdate_mesh:
  assumes "leafUpdate g s = Inr (g', s')"
  shows "insertedMesh g' = insertedMesh g"
proof -
  obtain eh n2 where e: "assignIndices putLeafIndex (leafElements g) (elementAt g, 0) = (eh, n2)"
    by (cases "assignIndices putLeafIndex (leafElements g) (elementAt g, 0)")
  obtain vh n0 where v: "fold setVertexLeafIndex (vertexVisits g) (vertexAt g, 0) = (vh, n0)"
    by (cases "fold setVertexLeafIndex (vertexVisits g) (vertexAt g, 0)")
  obtain dh n1 where d: "assignIndices putLeafIndex (edgeVisits g) (edgeAt g, 0) = (dh, n1)"
    by (cases "assignIndices putLeafIndex (edgeVisits g) (edgeAt g, 0)")
  from assms have leaves: "\<forall>a \<in> set (edgeVisits g). edgeIsLeaf (edgeAt g a)"
    by (auto simp: leafUpdate_unfold edgePass_cases Let_def split: prod.splits if_splits)
  from assms e v d leaves have g': "g' = g\<lparr>elementAt := eh, edgeAt := dh, vertexAt := vh\<rparr>"
    by (auto simp: leafUpdate_unfold edgePass_cases Let_def)
  have eh: "eh = fst (assignIndices putLeafIndex (leafElements g) (elementAt g, 0))"
    using e by simp
  have vh: "vh = fst (fold setVertexLeafIndex (vertexVisits g) (vertexAt g, 0))"
    using v by simp
  have vid: "entityId (vh a) = entityId (vertexAt g a)" for a
    unfolding vh by (rule sameShape_entityId) (rule vertexPass_shape)
  show ?thesis
    unfolding g'
    by (rule insertedMesh_eqI) (simp_all add: vid, simp_all add: eh assignIndices_frame putLeafIndex_def)
qed

lemma setIndices_mesh:
  assumes "setIndices g = Inr g'"
  shows "insertedMesh g' = insertedMesh g"
proof -
  let ?g0 = "g\<lparr>levelIndexSets := levelIndexSets g
                  @ replicate (length (entityImps g) - length (levelIndexSets g)) emptyLevelIndexSet\<rparr>"
  from assms obtain g1 g2 s where
    u: "updateLevelIndexSets [0..<length (entityImps ?g0)] ?g0 = Inr g1"
    and l: "leafUpdate g1 (leafIndexSet g1) = Inr (g2, s)"
    and g': "g' = g2\<lparr>leafIndexSet := s\<rparr>"
    by (auto simp: setIndices_def Let_def split: sum.splits)
  have "insertedMesh ?g0 = insertedMesh g" by (simp add: insertedMesh_def)
  moreover have "insertedMesh g' = insertedMesh g2" by (simp add: g' insertedMesh_def)
  ultimately show ?thesis
    using updateLevelIndexSets_mesh [OF u] leafUpdate_mesh [OF l] by simp
qed

lemma boundaryStep_mesh: "insertedMesh (fst (boundaryStep a st)) = insertedMesh (fst st)"
  by (cases st) (simp add: boundaryStep_def insertedMesh_def)

lemma setBoundaryIds_mesh: "insertedMesh (setBoundaryIds g) = insertedMesh g"
proof -
  have "insertedMesh (fst (fold boundaryStep es st)) = insertedMesh (fst st)" for es st
    by (rule fold_frame [where proj = "\<lambda>st. insertedMesh (fst st)"]) (rule boundaryStep_mesh)
  then show ?thesis by (simp add: setBoundaryIds_fold)
qed

text \<open>
  Claim C9.  For every factory, a call of \<^verbatim>\<open>createGrid\<close> that returns leaves the
  factory without a grid and otherwise as it was.  If the factory had a grid, the call
  hands over that grid: the result is the factory's grid after the edges were created
  and the indices and boundary ids set, and it holds the vertices and elements that
  were inserted.  If the factory had no grid, the call returns none.  The next call
  returns no grid and leaves the factory as it is: no edge is created, no index is
  updated and no boundary id is set.
\<close>

theorem createGrid_twice:
  assumes "createGrid f = Inr (r, f')"
  shows "grid f' = None \<and> createGrid f' = Inr (None, f') \<and> (grid f \<noteq> None \<longrightarrow> r \<noteq> None)
         \<and> f' = f\<lparr>grid := None\<rparr>
         \<and> (grid f = None \<longrightarrow> r = None)
         \<and> (\<forall>g. grid f = Some g \<longrightarrow>
               (\<exists>g1. setIndices (snd (createEdges g)) = Inr g1 \<and> r = Some (setBoundaryIds g1))
               \<and> (\<exists>g'. r = Some g' \<and> insertedMesh g' = insertedMesh g))"
proof (cases "grid f")
  case None
  with assms show ?thesis by (auto simp: createGrid_def)
next
  case (Some g)
  with assms obtain g1 where si: "setIndices (snd (createEdges g)) = Inr g1"
    and r: "r = Some (setBoundaryIds g1)" and f': "f' = f\<lparr>grid := None\<rparr>"
    by (auto simp: createGrid_def split: sum.splits)
  have "insertedMesh (setBoundaryIds g1) = insertedMesh g"
    using setBoundaryIds_mesh [of g1] setIndices_mesh [OF si] createEdges_mesh [of g] by simp
  with Some si r f' show ?thesis by (simp add: createGrid_def)
qed

theorem createGrid_twice_witness:
  "createGrid squareFactory = Inr (Some squareGrid, squareFactory\<lparr>grid := None\<rparr>)
   \<and> grid squareFactory \<noteq> None
   \<and> grid (squareFactory\<lparr>grid := None\<rparr>) = None
   \<and> createGrid (squareFactory\<lparr>grid := None\<rparr>) = Inr (None, squareFactory\<lparr>grid := None\<rparr>)
   \<and> insertedMesh squareGrid = insertedMesh (the (grid squareFactory))
   \<and> map vertexList (entityImps squareGrid) = [[0, 1, 2, 3]]
   \<and> map elementList (entityImps squareGrid) = [[0, 1]]
   \<and> elementVertex (elementAt squareGrid 0) = [0, 1, 2]
   \<and> elementVertex (elementAt squareGrid 1) = [1, 3, 2]"
proof -
  have c: "createGrid squareFactory = Inr (Some squareGrid, squareFactory\<lparr>grid := None\<rparr>)"
    by (simp add: factory_eval)
  obtain g where g: "grid squareFactory = Some g"
    by (simp add: factory_eval)
  have v: "map vertexList (entityImps squareGrid) = [[0, 1, 2, 3]]
   \<and> map elementList (entityImps squareGrid) = [[0, 1]]
   \<and> elementVertex (elementAt squareGrid 0) = [0, 1, 2]
   \<and> elementVertex (elementAt squareGrid 1) = [1, 3, 2]"
    by (simp add: factory_eval)
  from createGrid_twice [OF c] g
  have "grid (squareFactory\<lparr>grid := None\<rparr>) = None"
    and "createGrid (squareFactory\<lparr>grid := None\<rparr>) = Inr (None, squareFactory\<lparr>grid := None\<rparr>)"
    and "insertedMesh squareGrid = insertedMesh g"
    by auto
  with c g v show ?thesis by simp
qed


end
